theory Spec2Isabelle
  imports Main "HOL-Library.Word"
begin

unbundle bit_operations_syntax

section \<open>The ASF extractor of libstagefright\<close>

text \<open>
  A shallow embedding of \<^verbatim>\<open>media/libstagefright/AsfExtractor.cpp\<close> and of its header.
  The extractor object is a record that every operation takes and returns; the track
  list (a singly linked list in the source) is a list, and a \<^verbatim>\<open>Track*\<close> is the
  position of the track in it. The data source and the stream parser are collaborators
  whose code is outside the extractor: they are the fields of an environment record and
  every theorem holds for all of them. Locks are not modelled: every operation runs to
  completion on its own.
\<close>

subsection \<open>Status codes, bytes and outcomes\<close>

datatype status_t =
  OK | BAD_VALUE | NO_MEMORY | ERROR_IO | ERROR_MALFORMED | ERROR_UNSUPPORTED
  | ERROR_END_OF_STREAM

type_synonym byte = "8 word"

text \<open>A byte of allocated memory: \<open>None\<close> until something has been written to it.\<close>

type_synonym cell = "byte option"

text \<open>
  \<open>Fault\<close> stands for the executions on which the source writes outside an allocation
  or through a null pointer; C++ gives them no meaning.
\<close>

datatype 'a exec = Fault | Ret 'a

subsection \<open>MetaData\<close>

datatype metaKey =
  kKeyMIMEType | kKeyDuration | kKeyChannelCount | kKeySampleRate | kKeyConfigData
  | kKeySuggestedBufferSize | kKeyWidth | kKeyHeight | kKeyThumbnailTime | kKeyTime
  | kKeyIsSyncFrame

datatype metaValue = MInt32 int | MInt64 int | MCString string | MData "byte list"

type_synonym metaData = "(metaKey \<times> metaValue) list"

fun setMeta :: "metaKey \<Rightarrow> metaValue \<Rightarrow> metaData \<Rightarrow> metaData" where
  "setMeta k v [] = [(k, v)]"
| "setMeta k v ((k', v') # m) = (if k' = k then (k, v) # m else (k', v') # setMeta k v m)"

subsection \<open>Media buffers and their backing store\<close>

text \<open>
  A \<^verbatim>\<open>MediaBuffer\<close> is a view: the allocation it points to, its size, the logical range
  and the attached attributes. The allocations live in the extractor's \<open>heap\<close>, a list
  indexed by allocation number, so that a clone and its original share their bytes.
\<close>

record mediaBuffer =
  mb_data :: nat
  mb_size :: nat
  range_offset :: nat
  range_length :: nat
  meta_data :: metaData

definition set_range :: "nat \<Rightarrow> nat \<Rightarrow> mediaBuffer \<Rightarrow> mediaBuffer" where
  "set_range off len b = b\<lparr>range_offset := off, range_length := len\<rparr>"

text \<open>\<^verbatim>\<open>MediaBuffer::clone\<close>: a new view of the same allocation, with a copy of the attributes.\<close>

definition clone :: "mediaBuffer \<Rightarrow> mediaBuffer" where
  "clone b = \<lparr>mb_data = mb_data b, mb_size = mb_size b, range_offset = range_offset b,
              range_length = range_length b, meta_data = meta_data b\<rparr>"

text \<open>\<^verbatim>\<open>memcpy(dst + off, src, n)\<close> into an allocation; outside it there is no result.\<close>

definition memcpy :: "cell list \<Rightarrow> nat \<Rightarrow> byte list \<Rightarrow> cell list option" where
  "memcpy dst off src =
     (if off + length src \<le> length dst
      then Some (take off dst @ map Some src @ drop (off + length src) dst)
      else None)"


subsection \<open>Records produced by the stream parser\<close>

text \<open>
  Modelled from the spec: \<^verbatim>\<open>AsfPayloadDataInfo\<close>, \<^verbatim>\<open>AsfAudioStreamInfo\<close> and
  \<^verbatim>\<open>AsfVideoStreamInfo\<close> are declared in the parser's header, which is not part of the
  extractor's source. The fields are the ones the extractor reads. The lengths, offsets
  and times of a payload are 32-bit unsigned integers, the widest that the payload
  header of the container format holds, so the arithmetic of the source on them wraps
  at \<open>2 ^ 32\<close>. A linked list of records is a list, and the pair of
  \<^verbatim>\<open>payloadData\<close> and \<^verbatim>\<open>payloadSize\<close> is a list of bytes: \<open>payloadSize\<close> is its length
  as a 32-bit integer.
\<close>

record payload =
  payloadStreamNumber :: nat
  mediaObjectLength :: "32 word"
  offsetIntoMediaObject :: "32 word"
  keyframe :: bool
  presentationTime :: "32 word"
  payloadData :: "byte list"

definition payloadSize :: "payload \<Rightarrow> 32 word" where
  "payloadSize p = of_nat (length (payloadData p))"

text \<open>The bytes that a \<^verbatim>\<open>memcpy\<close> of \<open>payloadSize\<close> bytes from \<open>payloadData\<close> copies.\<close>

definition payloadBytes :: "payload \<Rightarrow> byte list" where
  "payloadBytes p = take (unat (payloadSize p)) (payloadData p)"

record audioInfo =
  a_streamNumber :: nat
  a_encryptedContentFlag :: bool
  numChannels :: nat
  sampleRate :: nat
  a_codecData :: "byte list"
  codecID :: nat

record videoInfo =
  v_streamNumber :: nat
  v_encryptedContentFlag :: bool
  width :: nat
  height :: nat
  v_codecData :: "byte list"
  fourCC :: "32 word"

subsection \<open>Read options\<close>

text \<open>
  Modelled from the spec: \<^verbatim>\<open>MediaSource::ReadOptions\<close> is declared outside the extractor's
  source. \<open>getSeekTo\<close> is \<open>None\<close> when the options carry no seek request; the lateness
  is the other option a caller can set.
\<close>

datatype SeekMode = SEEK_PREVIOUS_SYNC | SEEK_NEXT_SYNC | SEEK_CLOSEST_SYNC | SEEK_CLOSEST

record readOptions =
  getSeekTo :: "(64 word \<times> SeekMode) option"
  getLateBy :: "64 word"

subsection \<open>Tracks and the extractor\<close>

record track =
  meta :: metaData
  skipTrack :: bool
  seekCompleted :: bool
  encrypted :: bool
  streamNumber :: "8 word"
  bufferQueue :: "mediaBuffer list"
  bufferActive :: "mediaBuffer option"

text \<open>
  \<open>tracks\<close> is the chain from \<^verbatim>\<open>mFirstTrack\<close> to \<^verbatim>\<open>mLastTrack\<close>. The \<^verbatim>\<open>int64_t\<close> members
  are 64-bit words: arithmetic wraps and comparisons read them as two's complement.
  \<open>mDataPacketData\<close> is \<open>None\<close> for the null pointer.
\<close>

record 'p AsfExtractor =
  mInitialized :: bool
  tracks :: "track list"
  mParser :: 'p
  mFileMetaData :: metaData
  mHeaderObjectSize :: "64 word"
  mDataObjectSize :: "64 word"
  mDataPacketBeginOffset :: "64 word"
  mDataPacketEndOffset :: "64 word"
  mDataPacketCurrentOffset :: "64 word"
  mDataPacketSize :: "64 word"
  mDataPacketData :: "cell list option"
  heap :: "cell list list"

text \<open>
  The collaborators. \<open>readAt off n\<close> is \<^verbatim>\<open>DataSource::readAt\<close>: the value returned and
  the bytes stored. \<open>new_ok n\<close> tells whether an allocation of \<open>n\<close> bytes yields a
  non-null pointer. The other fields are the calls the extractor makes on
  \<^verbatim>\<open>AsfStreamParser\<close>, whose state is \<open>'p\<close>: a parse takes the bytes and the parser
  state and returns whether it succeeded with the new state; \<open>parseDataPacket\<close> returns
  \<open>None\<close> for a status other than success and the payload list otherwise (the empty
  list for a null list); \<open>seek\<close> returns the packet number and the target time, or
  \<open>None\<close> for \<^verbatim>\<open>false\<close>. \<open>ASF_DATA_OBJECT_HEADER_SIZE\<close> is a constant of the parser's
  header (the source reads the bytes 16 to 23 of a header of that size) and the three
  MIME strings are constants of \<^verbatim>\<open>MediaDefs.h\<close>.
\<close>

record 'p env =
  readAt :: "64 word \<Rightarrow> nat \<Rightarrow> int \<times> byte list"
  new_ok :: "nat \<Rightarrow> bool"
  parseHeaderObject :: "byte list \<Rightarrow> 'p \<Rightarrow> bool \<times> 'p"
  parseDataObjectHeader :: "byte list \<Rightarrow> 'p \<Rightarrow> bool \<times> 'p"
  getDataPacketSize :: "'p \<Rightarrow> 32 word"
  getMaxObjectSize :: "'p \<Rightarrow> 32 word"
  getDuration :: "'p \<Rightarrow> 64 word"
  fileInfoSeekable :: "'p \<Rightarrow> bool"
  isSimpleIndexObject :: "byte list \<Rightarrow> bool"
  parseSimpleIndexObject :: "byte list \<Rightarrow> 'p \<Rightarrow> 'p"
  hasVideo :: "'p \<Rightarrow> bool"
  hasAudio :: "'p \<Rightarrow> bool"
  getAudioInfo :: "'p \<Rightarrow> audioInfo list"
  getVideoInfo :: "'p \<Rightarrow> videoInfo list"
  seek :: "64 word \<Rightarrow> bool \<Rightarrow> 'p \<Rightarrow> (32 word \<times> 64 word) option \<times> 'p"
  parseDataPacket :: "byte list \<Rightarrow> 'p \<Rightarrow> payload list option \<times> 'p"
  ASF_DATA_OBJECT_HEADER_SIZE :: nat
  MEDIA_MIMETYPE_CONTAINER_ASF :: string
  MEDIA_MIMETYPE_VIDEO_WMV :: string
  MEDIA_MIMETYPE_AUDIO_WMA :: string

text \<open>The extractor as the constructor leaves it.\<close>

definition AsfExtractor_new :: "'p \<Rightarrow> 'p AsfExtractor" where
  "AsfExtractor_new p =
     \<lparr>mInitialized = False, tracks = [], mParser = p, mFileMetaData = [],
      mHeaderObjectSize = 0, mDataObjectSize = 0, mDataPacketBeginOffset = 0,
      mDataPacketEndOffset = 0, mDataPacketCurrentOffset = 0, mDataPacketSize = 0,
      mDataPacketData = None, heap = []\<rparr>"

definition SCALE_100_NANOSEC_TO_USEC :: "64 word" where
  "SCALE_100_NANOSEC_TO_USEC = 10"

text \<open>Applying a change to the track at a position, as a write through a \<^verbatim>\<open>Track*\<close> does.\<close>

definition upd_track :: "nat \<Rightarrow> (track \<Rightarrow> track) \<Rightarrow> 'p AsfExtractor \<Rightarrow> 'p AsfExtractor" where
  "upd_track i f s = s\<lparr>tracks := (tracks s)[i := f (tracks s ! i)]\<rparr>"

subsection \<open>Track lookup\<close>

text \<open>
  \<^verbatim>\<open>getTrackByTrackIndex\<close>: the walk starts at \<^verbatim>\<open>mFirstTrack\<close> and takes one step while the
  index is positive; \<open>None\<close> is the null pointer. \<open>pos\<close> is the position of the first
  track of the remaining chain.
\<close>

fun trackByIndexFrom :: "nat \<Rightarrow> track list \<Rightarrow> int \<Rightarrow> nat option" where
  "trackByIndexFrom pos [] index = None"
| "trackByIndexFrom pos (t # rest) index =
     (if index > 0 then trackByIndexFrom (pos + 1) rest (index - 1) else Some pos)"

definition getTrackByTrackIndex :: "'p AsfExtractor \<Rightarrow> int \<Rightarrow> nat option" where
  "getTrackByTrackIndex s index = trackByIndexFrom 0 (tracks s) index"

fun trackByStreamFrom :: "nat \<Rightarrow> track list \<Rightarrow> int \<Rightarrow> nat option" where
  "trackByStreamFrom pos [] stream = None"
| "trackByStreamFrom pos (t # rest) stream =
     (if uint (streamNumber t) = stream then Some pos
      else trackByStreamFrom (pos + 1) rest stream)"

definition getTrackByStreamNumber :: "'p AsfExtractor \<Rightarrow> int \<Rightarrow> nat option" where
  "getTrackByStreamNumber s stream = trackByStreamFrom 0 (tracks s) stream"

subsection \<open>Building the track list\<close>

text \<open>
  The macro \<^verbatim>\<open>FOURCC\<close> of \<^verbatim>\<open>Utils.h\<close> puts its first character in the most significant
  byte; the source's comment gives \<^verbatim>\<open>WVC1 => 0x31435657\<close> for the value it compares.
\<close>

definition FOURCC :: "char \<Rightarrow> char \<Rightarrow> char \<Rightarrow> char \<Rightarrow> 32 word" where
  "FOURCC c1 c2 c3 c4 =
     push_bit 24 (of_char c1) OR push_bit 16 (of_char c2) OR push_bit 8 (of_char c3) OR of_char c4"

definition FourCC2MIME :: "'p env \<Rightarrow> 32 word \<Rightarrow> string" where
  "FourCC2MIME env fourcc =
     (if fourcc = FOURCC CHR ''1'' CHR ''V'' CHR ''M'' CHR ''W'' then ''video/wmv1''
      else if fourcc = FOURCC CHR ''2'' CHR ''V'' CHR ''M'' CHR ''W'' then ''video/wmv2''
      else if fourcc = FOURCC CHR ''A'' CHR ''V'' CHR ''M'' CHR ''W''
        then MEDIA_MIMETYPE_VIDEO_WMV env
      else if fourcc = FOURCC CHR ''3'' CHR ''V'' CHR ''M'' CHR ''W''
            \<or> fourcc = FOURCC CHR ''1'' CHR ''C'' CHR ''V'' CHR ''W''
        then MEDIA_MIMETYPE_VIDEO_WMV env
      else ''video/unknown-type'')"

definition CodecID2MIME :: "'p env \<Rightarrow> nat \<Rightarrow> string" where
  "CodecID2MIME env cid =
     (if cid = 0x0160 \<or> cid = 0x0161 \<or> cid = 0x0162 then MEDIA_MIMETYPE_AUDIO_WMA env
      else if cid = 0x0163 then MEDIA_MIMETYPE_AUDIO_WMA env
      else if cid = 0x000A \<or> cid = 0x000B then ''audio/wma-voice''
      else ''audio/unknown-type'')"

definition setConfigData :: "byte list \<Rightarrow> metaData \<Rightarrow> metaData" where
  "setConfigData d m = (if length d \<noteq> 0 then setMeta kKeyConfigData (MData d) m else m)"

definition durationUs :: "'p env \<Rightarrow> 'p \<Rightarrow> metaValue" where
  "durationUs env p = MInt64 (sint (getDuration env p div SCALE_100_NANOSEC_TO_USEC))"

text \<open>The track made for one audio descriptor, and the one made for one video descriptor.\<close>

definition audioTrack :: "'p env \<Rightarrow> 'p \<Rightarrow> audioInfo \<Rightarrow> track" where
  "audioTrack env p a =
     \<lparr>meta =
        setMeta kKeySuggestedBufferSize (MInt32 (sint (getDataPacketSize env p)))
          (setMeta kKeyMIMEType (MCString (CodecID2MIME env (codecID a)))
            (setMeta kKeyDuration (durationUs env p)
              (setConfigData (a_codecData a)
                (setMeta kKeySampleRate (MInt32 (int (sampleRate a)))
                  (setMeta kKeyChannelCount (MInt32 (int (numChannels a))) []))))),
      skipTrack = True, seekCompleted = False, encrypted = a_encryptedContentFlag a,
      streamNumber = of_nat (a_streamNumber a), bufferQueue = [], bufferActive = None\<rparr>"

definition videoTrack :: "'p env \<Rightarrow> 'p \<Rightarrow> videoInfo \<Rightarrow> track" where
  "videoTrack env p v =
     (let maxSize = (if getMaxObjectSize env p = 0 then 10 * getDataPacketSize env p
                     else getMaxObjectSize env p)
      in \<lparr>meta =
        setMeta kKeyThumbnailTime
            (MInt64 (sint (getDuration env p div (SCALE_100_NANOSEC_TO_USEC * 2))))
          (setMeta kKeySuggestedBufferSize (MInt32 (sint maxSize))
            (setMeta kKeyMIMEType (MCString (FourCC2MIME env (fourCC v)))
              (setMeta kKeyDuration (durationUs env p)
                (setConfigData (v_codecData v)
                  (setMeta kKeyHeight (MInt32 (int (height v)))
                    (setMeta kKeyWidth (MInt32 (int (width v))) [])))))),
      skipTrack = True, seekCompleted = False, encrypted = v_encryptedContentFlag v,
      streamNumber = of_nat (v_streamNumber v), bufferQueue = [], bufferActive = None\<rparr>)"

text \<open>
  The loop of \<^verbatim>\<open>setupTracks\<close>: while a descriptor is left, one track is appended to the
  chain, for the next audio descriptor when there is one, else for the next video
  descriptor.
\<close>

fun setupLoop :: "'p env \<Rightarrow> 'p \<Rightarrow> audioInfo list \<Rightarrow> videoInfo list \<Rightarrow> track list \<Rightarrow> track list" where
  "setupLoop env p (a # as) vs ts = setupLoop env p as vs (ts @ [audioTrack env p a])"
| "setupLoop env p [] (v # vs) ts = setupLoop env p [] vs (ts @ [videoTrack env p v])"
| "setupLoop env p [] [] ts = ts"

text \<open>
  \<^verbatim>\<open>setupTracks\<close> starts the loop with a null audio descriptor (the call of
  \<^verbatim>\<open>getAudioInfo\<close> is commented out, under the warning that audio is disabled) and with
  the parser's video descriptors.
\<close>

definition setupTracks :: "'p env \<Rightarrow> 'p AsfExtractor \<Rightarrow> 'p AsfExtractor" where
  "setupTracks env s =
     s\<lparr>tracks := setupLoop env (mParser s) [] (getVideoInfo env (mParser s)) (tracks s)\<rparr>"

subsection \<open>Initialization\<close>

text \<open>An 8-byte little-endian integer, as the \<^verbatim>\<open>int64_t\<close> loads of the source read it.\<close>

definition le64 :: "byte list \<Rightarrow> 64 word" where
  "le64 bs = foldr (\<lambda>b w. ucast b OR push_bit 8 w) (take 8 bs) 0"

definition bytes_of64 :: "64 word \<Rightarrow> byte list" where
  "bytes_of64 w = map (\<lambda>i. ucast (drop_bit (8 * i) w)) [0..<8]"

text \<open>The value of an \<^verbatim>\<open>int64_t\<close> after \<open>bs\<close> has been stored over its first bytes.\<close>

definition stored64 :: "byte list \<Rightarrow> 64 word \<Rightarrow> 64 word" where
  "stored64 bs old = le64 (take 8 bs @ drop (length bs) (bytes_of64 old))"

text \<open>
  The search for the simple index object after the data object. The source's loop has no
  bound (an object of size 0 that is not the index is read again and again), so the
  model counts the objects it may still visit: \<open>None\<close> when the count runs out.
\<close>

fun findSimpleIndex :: "nat \<Rightarrow> 'p env \<Rightarrow> 64 word \<Rightarrow> 'p \<Rightarrow> 'p option" where
  "findSimpleIndex 0 env offset p = None"
| "findSimpleIndex (Suc fuel) env offset p =
     (case readAt env offset 24 of (ret, objectHeader) \<Rightarrow>
        if ret \<noteq> 24 then Some p
        else
          let objectSize = le64 (drop 16 objectHeader) in
          if \<not> isSimpleIndexObject env objectHeader
          then findSimpleIndex fuel env (offset + objectSize) p
          else if \<not> new_ok env (unat objectSize) then Some p
          else (case readAt env offset (unat objectSize) of (ret2, indexObjectData) \<Rightarrow>
                  if ret2 = sint objectSize
                  then Some (parseSimpleIndexObject env indexObjectData p)
                  else Some p))"

definition initialize :: "nat \<Rightarrow> 'p env \<Rightarrow> 'p AsfExtractor \<Rightarrow> (status_t \<times> 'p AsfExtractor) option" where
  "initialize fuel env s =
     (if mInitialized s then Some (OK, s)
      else case readAt env 16 8 of (r1, b1) \<Rightarrow>
        let s1 = s\<lparr>mHeaderObjectSize := stored64 b1 (mHeaderObjectSize s)\<rparr> in
        if r1 \<noteq> 8 then Some (ERROR_IO, s1)
        else if \<not> new_ok env (unat (mHeaderObjectSize s1)) then Some (NO_MEMORY, s1)
        else case readAt env 0 (unat (mHeaderObjectSize s1)) of (r2, headerObjectData) \<Rightarrow>
        if r2 \<noteq> sint (mHeaderObjectSize s1) then Some (ERROR_IO, s1)
        else case parseHeaderObject env headerObjectData (mParser s1) of (ok2, p2) \<Rightarrow>
        let s2 = s1\<lparr>mParser := p2\<rparr> in
        if \<not> ok2 then Some (ERROR_MALFORMED, s2)
        else case readAt env (mHeaderObjectSize s2) (ASF_DATA_OBJECT_HEADER_SIZE env) of
          (r3, dataObjectHeaderData) \<Rightarrow>
        if r3 \<noteq> int (ASF_DATA_OBJECT_HEADER_SIZE env) then Some (ERROR_IO, s2)
        else case parseDataObjectHeader env dataObjectHeaderData (mParser s2) of (ok3, p3) \<Rightarrow>
        let s3 = s2\<lparr>mParser := p3\<rparr> in
        if \<not> ok3 then Some (ERROR_MALFORMED, s3)
        else
          let dataObjectSize = le64 (drop 16 dataObjectHeaderData);
              beginOffset = mHeaderObjectSize s3 + of_nat (ASF_DATA_OBJECT_HEADER_SIZE env);
              s4 = s3\<lparr>mDataObjectSize := dataObjectSize,
                      mDataPacketBeginOffset := beginOffset,
                      mDataPacketEndOffset := mHeaderObjectSize s3 + dataObjectSize,
                      mDataPacketCurrentOffset := beginOffset,
                      mDataPacketSize := ucast (getDataPacketSize env (mParser s3))\<rparr>
          in
          if \<not> new_ok env (unat (mDataPacketSize s4))
          then Some (NO_MEMORY, s4\<lparr>mDataPacketData := None\<rparr>)
          else
            let s5 = s4\<lparr>mDataPacketData := Some (replicate (unat (mDataPacketSize s4)) None)\<rparr>
            in case (if fileInfoSeekable env (mParser s5)
                     then findSimpleIndex fuel env (mDataPacketEndOffset s5) (mParser s5)
                     else Some (mParser s5)) of
                 None \<Rightarrow> None
               | Some p6 \<Rightarrow>
                   let s6 = s5\<lparr>mParser := p6\<rparr> in
                   if hasVideo env p6 \<or> hasAudio env p6
                   then
                     let s7 = s6\<lparr>mFileMetaData :=
                                setMeta kKeyDuration (durationUs env p6)
                                  (setMeta kKeyMIMEType
                                     (MCString (MEDIA_MIMETYPE_CONTAINER_ASF env))
                                     (mFileMetaData s6))\<rparr>
                     in Some (OK, (setupTracks env s7)\<lparr>mInitialized := True\<rparr>)
                   else Some (ERROR_UNSUPPORTED, s6))"

subsection \<open>The public interface\<close>

definition countTracks :: "nat \<Rightarrow> 'p env \<Rightarrow> 'p AsfExtractor \<Rightarrow> (nat \<times> 'p AsfExtractor) option" where
  "countTracks fuel env s =
     (case initialize fuel env s of
        None \<Rightarrow> None
      | Some (err, s') \<Rightarrow> if err \<noteq> OK then Some (0, s') else Some (length (tracks s'), s'))"

text \<open>
  \<^verbatim>\<open>getTrack\<close> and \<^verbatim>\<open>getTrackMetaData\<close> take a \<^verbatim>\<open>size_t\<close> and hand it to
  \<^verbatim>\<open>getTrackByTrackIndex\<close>, which takes an \<^verbatim>\<open>int\<close>: the conversion keeps the low 32 bits
  and reads them as two's complement.
\<close>

definition size_t_to_int :: "nat \<Rightarrow> int" where
  "size_t_to_int n = sint (of_nat n :: 32 word)"

definition getTrackMetaData :: "nat \<Rightarrow> 'p env \<Rightarrow> nat \<Rightarrow> 'p AsfExtractor \<Rightarrow> (metaData option \<times> 'p AsfExtractor) option" where
  "getTrackMetaData fuel env index s =
     (case initialize fuel env s of
        None \<Rightarrow> None
      | Some (err, s') \<Rightarrow>
          if err \<noteq> OK then Some (None, s')
          else (case getTrackByTrackIndex s' (size_t_to_int index) of
                  None \<Rightarrow> Some (None, s')
                | Some t \<Rightarrow> Some (Some (meta (tracks s' ! t)), s')))"

text \<open>The source returned by \<^verbatim>\<open>getTrack\<close> is an \<^verbatim>\<open>ASFSource\<close>, which holds the track index.\<close>

definition getTrack :: "nat \<Rightarrow> 'p env \<Rightarrow> nat \<Rightarrow> 'p AsfExtractor \<Rightarrow> (int option \<times> 'p AsfExtractor) option" where
  "getTrack fuel env index s =
     (case initialize fuel env s of
        None \<Rightarrow> None
      | Some (err, s') \<Rightarrow>
          if err \<noteq> OK then Some (None, s')
          else (case getTrackByTrackIndex s' (size_t_to_int index) of
                  None \<Rightarrow> Some (None, s')
                | Some t \<Rightarrow>
                    Some (Some (size_t_to_int index),
                          upd_track t (\<lambda>tr. tr\<lparr>skipTrack := False\<rparr>) s')))"

subsection \<open>Seeking\<close>

text \<open>
  The flush loop of \<^verbatim>\<open>seek_l\<close>, from the track at position \<open>pos\<close> on: the in-progress
  buffer is dropped, the queue is cleared, and every track but the one the seek came
  from is marked. Releasing a buffer gives up a reference and changes no byte, so the
  store is left alone.
\<close>

fun flushTracks :: "nat \<Rightarrow> nat \<Rightarrow> track list \<Rightarrow> track list" where
  "flushTracks t pos [] = []"
| "flushTracks t pos (temp # rest) =
     (let temp1 = temp\<lparr>bufferActive := None, bufferQueue := []\<rparr>;
          temp2 = (if pos \<noteq> t then temp1\<lparr>seekCompleted := True\<rparr> else temp1)
      in temp2 # flushTracks t (pos + 1) rest)"

definition seek_l :: "'p env \<Rightarrow> nat \<Rightarrow> readOptions \<Rightarrow> 'p AsfExtractor \<Rightarrow> status_t \<times> 'p AsfExtractor" where
  "seek_l env t options s =
     (if seekCompleted (tracks s ! t)
      then (OK, upd_track t (\<lambda>tr. tr\<lparr>seekCompleted := False\<rparr>) s)
      else case getSeekTo options of
        None \<Rightarrow> (OK, s)
      | Some (seekTimeUs, mode) \<Rightarrow>
          let nextSync = (mode = SEEK_NEXT_SYNC) in
          (case seek env (seekTimeUs * SCALE_100_NANOSEC_TO_USEC) nextSync (mParser s) of
             (None, p') \<Rightarrow> (ERROR_END_OF_STREAM, s\<lparr>mParser := p'\<rparr>)
           | (Some (packetNumber, targetTime), p') \<Rightarrow>
               (OK, s\<lparr>mParser := p',
                      mDataPacketCurrentOffset :=
                        mDataPacketBeginOffset s + ucast packetNumber * mDataPacketSize s,
                      tracks := flushTracks t 0 (tracks s)\<rparr>)))"

subsection \<open>Demultiplexing one packet\<close>

text \<open>
  The attributes stamped on a new buffer: the time and the sync flag. The product
  \<^verbatim>\<open>presentationTime * 1000\<close> is computed in the 32 bits of the field and then widened to
  the \<^verbatim>\<open>int64_t\<close> that \<^verbatim>\<open>setInt64\<close> takes.
\<close>

definition stamp :: "payload \<Rightarrow> metaData" where
  "stamp p =
     (let m = setMeta kKeyTime (MInt64 (uint (presentationTime p * 1000))) []
      in if keyframe p then setMeta kKeyIsSyncFrame (MInt32 1) m else m)"

text \<open>
  \<^verbatim>\<open>int size = ((mediaObjectLength + 4096 - 1) / 4096) * 4096\<close>: the expression is computed
  in the 32 unsigned bits of the field and stored in an \<^verbatim>\<open>int\<close>, which keeps the bits.
  \<open>allocSize\<close> is the \<^verbatim>\<open>size_t\<close> that the constructor of \<^verbatim>\<open>MediaBuffer\<close> receives for it:
  the value of the \<^verbatim>\<open>int\<close> modulo \<open>2 ^ 64\<close>.
\<close>

definition bufferSize :: "payload \<Rightarrow> 32 word" where
  "bufferSize p = ((mediaObjectLength p + 4096 - 1) div 4096) * 4096"

definition allocSize :: "payload \<Rightarrow> nat" where
  "allocSize p = nat (sint (bufferSize p) mod 2 ^ 64)"

text \<open>
  The body of the payload loop of \<^verbatim>\<open>readPacket\<close>. The status \<open>OK\<close> stands for going on
  with the next payload, any other status for the \<^verbatim>\<open>return\<close> inside the loop.
\<close>

definition processPayload :: "'p env \<Rightarrow> payload \<Rightarrow> 'p AsfExtractor \<Rightarrow> (status_t \<times> 'p AsfExtractor) exec" where
  "processPayload env p s =
     (case getTrackByStreamNumber s (int (payloadStreamNumber p)) of
        None \<Rightarrow> Ret (OK, s)
      | Some i \<Rightarrow>
          let tr = tracks s ! i in
          if skipTrack tr then Ret (OK, s)
          else if mediaObjectLength p = payloadSize p \<or> offsetIntoMediaObject p = 0
          then
            if \<not> new_ok env (allocSize p) then Ret (NO_MEMORY, s)
            else (case memcpy (replicate (allocSize p) None) 0 (payloadBytes p) of
                None \<Rightarrow> Fault
              | Some d \<Rightarrow>
                  let buffer = \<lparr>mb_data = length (heap s), mb_size = allocSize p,
                                range_offset = 0, range_length = unat (mediaObjectLength p),
                                meta_data = stamp p\<rparr>;
                      s1 = s\<lparr>heap := heap s @ [d]\<rparr>
                  in
                  if mediaObjectLength p = payloadSize p
                  then Ret (OK, upd_track i
                         (\<lambda>tr. tr\<lparr>bufferQueue := bufferQueue tr @ [buffer]\<rparr>) s1)
                  else if encrypted tr
                  then Ret (OK, upd_track i
                         (\<lambda>tr. tr\<lparr>bufferActive := Some buffer,
                                   bufferQueue := bufferQueue tr
                                     @ [set_range 0 (unat (payloadSize p)) (clone buffer)]\<rparr>) s1)
                  else Ret (OK, upd_track i (\<lambda>tr. tr\<lparr>bufferActive := Some buffer\<rparr>) s1))
          else (case bufferActive tr of
              None \<Rightarrow> Ret (OK, s)
            | Some active \<Rightarrow>
                (case memcpy (heap s ! mb_data active) (unat (offsetIntoMediaObject p))
                        (payloadBytes p) of
                   None \<Rightarrow> Fault
                 | Some d \<Rightarrow>
                     let s1 = s\<lparr>heap := (heap s)[mb_data active := d]\<rparr> in
                     if offsetIntoMediaObject p + payloadSize p = mediaObjectLength p
                     then
                       if \<not> encrypted tr
                       then Ret (OK, upd_track i
                              (\<lambda>tr. tr\<lparr>bufferQueue := bufferQueue tr @ [active],
                                        bufferActive := None\<rparr>) s1)
                       else Ret (OK, upd_track i
                              (\<lambda>tr. tr\<lparr>bufferQueue := bufferQueue tr
                                          @ [set_range (unat (offsetIntoMediaObject p))
                                               (unat (payloadSize p)) active],
                                        bufferActive := None\<rparr>) s1)
                     else if encrypted tr
                     then Ret (OK, upd_track i
                            (\<lambda>tr. tr\<lparr>bufferQueue := bufferQueue tr
                                        @ [set_range (unat (offsetIntoMediaObject p))
                                             (unat (payloadSize p)) (clone active)]\<rparr>) s1)
                     else Ret (OK, s1))))"

fun processPayloads :: "'p env \<Rightarrow> payload list \<Rightarrow> 'p AsfExtractor \<Rightarrow> (status_t \<times> 'p AsfExtractor) exec" where
  "processPayloads env [] s = Ret (OK, s)"
| "processPayloads env (p # ps) s =
     (case processPayload env p s of
        Fault \<Rightarrow> Fault
      | Ret (st, s') \<Rightarrow> if st = OK then processPayloads env ps s' else Ret (st, s'))"

text \<open>The packet buffer after \<^verbatim>\<open>readAt\<close> has stored \<open>bs\<close> at its start.\<close>

definition overlay :: "byte list \<Rightarrow> cell list \<Rightarrow> cell list" where
  "overlay bs old = take (length old) (map Some bs) @ drop (length bs) old"

definition readPacket :: "'p env \<Rightarrow> 'p AsfExtractor \<Rightarrow> (status_t \<times> 'p AsfExtractor) exec" where
  "readPacket env s =
     (if mDataPacketEndOffset s <s mDataPacketCurrentOffset s + mDataPacketSize s
      then Ret (ERROR_END_OF_STREAM, s)
      else case mDataPacketData s of
        None \<Rightarrow> Fault
      | Some packetData \<Rightarrow>
          (case readAt env (mDataPacketCurrentOffset s) (unat (mDataPacketSize s)) of
             (ret, bytes) \<Rightarrow>
               let s0 = s\<lparr>mDataPacketData := Some (overlay bytes packetData)\<rparr> in
               if ret \<noteq> sint (mDataPacketSize s) then Ret (ERROR_END_OF_STREAM, s0)
               else
                 let s1 = s0\<lparr>mDataPacketCurrentOffset :=
                               mDataPacketCurrentOffset s + mDataPacketSize s\<rparr>
                 in (case parseDataPacket env bytes (mParser s1) of
                       (None, p') \<Rightarrow> Ret (ERROR_END_OF_STREAM, s1\<lparr>mParser := p'\<rparr>)
                     | (Some [], p') \<Rightarrow> Ret (ERROR_END_OF_STREAM, s1\<lparr>mParser := p'\<rparr>)
                     | (Some (p # ps), p') \<Rightarrow>
                         processPayloads env (p # ps) (s1\<lparr>mParser := p'\<rparr>))))"

subsection \<open>The pull call\<close>

text \<open>
  The loop of \<^verbatim>\<open>read_l\<close>: the head of the queue if there is one, else one more packet.
  Nothing in the source bounds the number of packets that give the track nothing, so
  the model counts the iterations it may still make: \<open>None\<close> when the count runs out.
  The buffer is \<open>None\<close> when \<^verbatim>\<open>*buffer\<close> is not assigned.
\<close>

fun read_l :: "nat \<Rightarrow> 'p env \<Rightarrow> nat \<Rightarrow> 'p AsfExtractor \<Rightarrow> (status_t \<times> mediaBuffer option \<times> 'p AsfExtractor) exec option" where
  "read_l 0 env t s = None"
| "read_l (Suc fuel) env t s =
     (case bufferQueue (tracks s ! t) of
        b # rest \<Rightarrow> Some (Ret (OK, Some b, upd_track t (\<lambda>tr. tr\<lparr>bufferQueue := rest\<rparr>) s))
      | [] \<Rightarrow>
          (case readPacket env s of
             Fault \<Rightarrow> Some Fault
           | Ret (err, s') \<Rightarrow>
               if err = OK then read_l fuel env t s' else Some (Ret (err, None, s'))))"

definition read :: "nat \<Rightarrow> 'p env \<Rightarrow> int \<Rightarrow> readOptions option \<Rightarrow> 'p AsfExtractor \<Rightarrow> (status_t \<times> mediaBuffer option \<times> 'p AsfExtractor) exec option" where
  "read fuel env trackIndex options s =
     (case getTrackByTrackIndex s trackIndex of
        None \<Rightarrow> Some (Ret (BAD_VALUE, None, s))
      | Some t \<Rightarrow>
          (case options of
             None \<Rightarrow> read_l fuel env t s
           | Some opts \<Rightarrow>
               (case seek_l env t opts s of
                  (err, s') \<Rightarrow>
                    if err \<noteq> OK then Some (Ret (err, None, s')) else read_l fuel env t s')))"

subsection \<open>A small container\<close>

text \<open>
  A container of two four-byte packets, followed by an index object, and collaborators
  that read it: a packet \<open>[sn, len, off, d]\<close> decodes to one payload of stream \<open>sn\<close>
  carrying the byte \<open>d\<close>, and a packet of stream 0 is malformed. The parser state tells
  whether an index was loaded; without one the time-to-packet query fails. The header
  announces two video streams and one audio stream.
\<close>

definition example_file :: "byte list" where
  "example_file =
     replicate 16 0 @ [24, 0, 0, 0, 0, 0, 0, 0]
     @ replicate 16 0 @ [58, 0, 0, 0, 0, 0, 0, 0] @ replicate 26 0
     @ [0, 0, 0, 0] @ [1, 1, 0, 7]
     @ [144] @ replicate 15 0 @ [26, 0, 0, 0, 0, 0, 0, 0] @ [0, 0]"

definition example_decode :: "byte list \<Rightarrow> payload list option" where
  "example_decode bs =
     (case bs of
        [sn, len, off, d] \<Rightarrow>
          if sn = 0 then None
          else Some [\<lparr>payloadStreamNumber = unat sn, mediaObjectLength = ucast len,
                      offsetIntoMediaObject = ucast off, keyframe = True,
                      presentationTime = 0, payloadData = [d]\<rparr>]
      | _ \<Rightarrow> None)"

definition example_env :: "bool \<Rightarrow> bool env" where
  "example_env seekable =
     \<lparr>readAt = (\<lambda>off n. (int (length (take n (drop (unat off) example_file))),
                         take n (drop (unat off) example_file))),
      new_ok = (\<lambda>n. True),
      parseHeaderObject = (\<lambda>bs p. (True, p)),
      parseDataObjectHeader = (\<lambda>bs p. (True, p)),
      getDataPacketSize = (\<lambda>p. 4),
      getMaxObjectSize = (\<lambda>p. 0),
      getDuration = (\<lambda>p. 0),
      fileInfoSeekable = (\<lambda>p. seekable),
      isSimpleIndexObject = (\<lambda>bs. take 1 bs = [144]),
      parseSimpleIndexObject = (\<lambda>bs p. True),
      hasVideo = (\<lambda>p. True),
      hasAudio = (\<lambda>p. True),
      getAudioInfo = (\<lambda>p. [\<lparr>a_streamNumber = 3, a_encryptedContentFlag = False, numChannels = 2,
                              sampleRate = 44100, a_codecData = [], codecID = 0x0161\<rparr>]),
      getVideoInfo = (\<lambda>p. [\<lparr>v_streamNumber = 1, v_encryptedContentFlag = False, width = 320,
                              height = 240, v_codecData = [], fourCC = 0x31435657\<rparr>,
                            \<lparr>v_streamNumber = 2, v_encryptedContentFlag = True, width = 320,
                              height = 240, v_codecData = [], fourCC = 0x31435657\<rparr>]),
      seek = (\<lambda>tm nextSync p. (if p \<and> tm < 20 then Some (ucast (tm div 10), tm) else None, p)),
      parseDataPacket = (\<lambda>bs p. (example_decode bs, p)),
      ASF_DATA_OBJECT_HEADER_SIZE = 50,
      MEDIA_MIMETYPE_CONTAINER_ASF = ''video/x-ms-asf'',
      MEDIA_MIMETYPE_VIDEO_WMV = ''video/x-ms-wmv'',
      MEDIA_MIMETYPE_AUDIO_WMA = ''audio/x-ms-wma''\<rparr>"

definition example_track :: "bool \<Rightarrow> bool \<Rightarrow> 8 word \<Rightarrow> track" where
  "example_track skip enc sn =
     \<lparr>meta = [(kKeyWidth, MInt32 320), (kKeyHeight, MInt32 240), (kKeyDuration, MInt64 0),
              (kKeyMIMEType, MCString ''video/x-ms-wmv''), (kKeySuggestedBufferSize, MInt32 40),
              (kKeyThumbnailTime, MInt64 0)],
      skipTrack = skip, seekCompleted = False, encrypted = enc, streamNumber = sn,
      bufferQueue = [], bufferActive = None\<rparr>"

definition example_state :: "bool \<Rightarrow> bool \<Rightarrow> bool AsfExtractor" where
  "example_state skip seekable =
     \<lparr>mInitialized = True,
      tracks = [example_track skip False 1, example_track skip True 2],
      mParser = seekable,
      mFileMetaData = [(kKeyMIMEType, MCString ''video/x-ms-asf''), (kKeyDuration, MInt64 0)],
      mHeaderObjectSize = 24, mDataObjectSize = 58, mDataPacketBeginOffset = 74,
      mDataPacketEndOffset = 82, mDataPacketCurrentOffset = 74, mDataPacketSize = 4,
      mDataPacketData = Some (replicate 4 None), heap = []\<rparr>"

text \<open>The state after the first packet of the small container has been rejected.\<close>

definition example_state2 :: "bool AsfExtractor" where
  "example_state2 =
     example_state False False
       \<lparr>mDataPacketData := Some [Some 0, Some 0, Some 0, Some 0], mDataPacketCurrentOffset := 78\<rparr>"

text \<open>
  The small container with an index that answers every time with the packet number 3,
  although the data region has two packets.
\<close>

definition example_env_far :: "bool env" where
  "example_env_far = (example_env True)\<lparr>seek := (\<lambda>tm nextSync p. (Some (3, tm), p))\<rparr>"

subsection \<open>Auxiliary notions for the statements\<close>

text \<open>The packet region of an extractor: begin, end, cursor and packet size.\<close>

definition region :: "'p AsfExtractor \<Rightarrow> 64 word \<times> 64 word \<times> 64 word \<times> 64 word" where
  "region s = (mDataPacketBeginOffset s, mDataPacketEndOffset s, mDataPacketCurrentOffset s,
               mDataPacketSize s)"

text \<open>The status and the buffer of a pull call that returned.\<close>

definition status_of :: "(status_t \<times> 'a) exec option \<Rightarrow> status_t option" where
  "status_of r = (case r of Some (Ret (st, x)) \<Rightarrow> Some st | _ \<Rightarrow> None)"

definition buffer_of :: "(status_t \<times> mediaBuffer option \<times> 'a) exec option \<Rightarrow> mediaBuffer option" where
  "buffer_of r = (case r of Some (Ret (st, b, x)) \<Rightarrow> b | _ \<Rightarrow> None)"

subsection \<open>Fragmented objects\<close>




text \<open>
  The buffer that \<^verbatim>\<open>readPacket\<close> makes for a whole object or a first fragment \<open>p\<close> when the
  store holds \<open>a\<close> allocations, the view of a buffer that shows one fragment, and the
  bytes of the allocation once the fragments \<open>fs\<close> have been copied in.
\<close>

definition wholeBuffer :: "nat \<Rightarrow> payload \<Rightarrow> mediaBuffer" where
  "wholeBuffer a p =
     \<lparr>mb_data = a, mb_size = allocSize p, range_offset = 0,
      range_length = unat (mediaObjectLength p), meta_data = stamp p\<rparr>"



subsection \<open>Runs of the demultiplexer\<close>

text \<open>The payload list that \<^verbatim>\<open>readPacket\<close> decodes from the packet at the cursor.\<close>

definition packetPayloads :: "'p env \<Rightarrow> 'p AsfExtractor \<Rightarrow> payload list" where
  "packetPayloads env s =
     (case fst (parseDataPacket env
                  (snd (readAt env (mDataPacketCurrentOffset s) (unat (mDataPacketSize s))))
                  (mParser s)) of
        None \<Rightarrow> []
      | Some ps \<Rightarrow> ps)"

text \<open>
  \<open>demuxed env s qs out s'\<close>: the steps that the loop of \<^verbatim>\<open>read_l\<close> makes, in any number and
  order and for any tracks, lead from \<open>s\<close> to \<open>s'\<close>. A step is a call of \<^verbatim>\<open>readPacket\<close>
  that returned \<open>OK\<close>, or the removal of the head of a track's queue, which is handed
  to the caller. \<open>qs\<close> are the payload entries of the packets, in the order in which the
  payload loop took them, and \<open>out\<close> are the buffers handed out, each with the position
  of its track. No seek and no other call is among the steps.
\<close>

inductive demuxed :: "'p env \<Rightarrow> 'p AsfExtractor \<Rightarrow> payload list \<Rightarrow> (nat \<times> mediaBuffer) list \<Rightarrow> 'p AsfExtractor \<Rightarrow> bool"
  for env :: "'p env" and s :: "'p AsfExtractor" where
  demuxed_none: "demuxed env s [] [] s"
| demuxed_packet:
    "demuxed env s qs out s1 \<Longrightarrow> readPacket env s1 = Ret (OK, s2) \<Longrightarrow>
     demuxed env s (qs @ packetPayloads env s1) out s2"
| demuxed_taken:
    "demuxed env s qs out s1 \<Longrightarrow> t < length (tracks s1) \<Longrightarrow>
     bufferQueue (tracks s1 ! t) = b # rest \<Longrightarrow>
     demuxed env s qs (out @ [(t, b)]) (upd_track t (\<lambda>tr. tr\<lparr>bufferQueue := rest\<rparr>) s1)"


text \<open>Every in-progress buffer points into the store.\<close>

definition store_ok :: "'p AsfExtractor \<Rightarrow> bool" where
  "store_ok s =
     list_all (\<lambda>tr. case bufferActive tr of None \<Rightarrow> True | Some b \<Rightarrow> mb_data b < length (heap s))
       (tracks s)"

text \<open>The parts of a track that the demultiplexer reads and never writes.\<close>

definition statics :: "track \<Rightarrow> bool \<times> bool \<times> 8 word" where
  "statics tr = (skipTrack tr, encrypted tr, streamNumber tr)"

text \<open>No track but the one at position \<open>i\<close> has an in-progress buffer in the allocation \<open>a\<close>.\<close>

definition others_clear :: "'p AsfExtractor \<Rightarrow> nat \<Rightarrow> nat \<Rightarrow> bool" where
  "others_clear s i a =
     (\<forall>j < length (tracks s). j \<noteq> i \<longrightarrow>
        (case bufferActive (tracks s ! j) of None \<Rightarrow> True | Some b \<Rightarrow> mb_data b \<noteq> a))"


subsection \<open>A container with fragmented objects\<close>









section \<open>Properties\<close>

lemmas ex_defs =
  example_env_def example_file_def example_decode_def example_track_def example_state_def

subsection \<open>Track lookup, initialization and seeking\<close>

lemma trackByIndexFrom_None:
  "int (length ts) \<le> index \<Longrightarrow> trackByIndexFrom pos ts index = None"
  by (induction ts arbitrary: pos index) auto

lemma trackByIndexFrom_Some:
  "0 \<le> index \<Longrightarrow> index < int (length ts) \<Longrightarrow> trackByIndexFrom pos ts index = Some (pos + nat index)"
proof (induction ts arbitrary: pos index)
  case Nil then show ?case by simp
next
  case (Cons a ts)
  show ?case
  proof (cases "index > 0")
    case True
    with Cons.prems have "trackByIndexFrom (pos + 1) ts (index - 1) = Some (pos + 1 + nat (index - 1))"
      by (intro Cons.IH) auto
    with True show ?thesis by (simp add: nat_diff_distrib)
  next
    case False
    with Cons.prems show ?thesis by simp
  qed
qed

lemma size_t_to_int_id: "0 \<le> i \<Longrightarrow> i < 2 ^ 31 \<Longrightarrow> size_t_to_int (nat i) = i"
proof -
  assume a: "0 \<le> i" "i < 2 ^ 31"
  have "(of_nat (nat i) :: 32 word) = word_of_int i" using a by simp
  then have "sint (of_nat (nat i) :: 32 word) = signed_take_bit 31 i"
    by (simp add: sint_sbintrunc')
  also have "\<dots> = i" using a by (intro signed_take_bit_int_eq_self) auto
  finally show ?thesis by (simp add: size_t_to_int_def)
qed

lemma flushTracks_length: "length (flushTracks t pos ts) = length ts"
  by (induction ts arbitrary: pos) (simp_all add: Let_def)

lemma flushTracks_nth:
  "i < length ts \<Longrightarrow>
   flushTracks t pos ts ! i =
     (ts ! i)\<lparr>bufferActive := None, bufferQueue := [],
             seekCompleted := (if pos + i \<noteq> t then True else seekCompleted (ts ! i))\<rparr>"
proof (induction ts arbitrary: pos i)
  case Nil then show ?case by simp
next
  case (Cons a ts)
  show ?case
  proof (cases i)
    case 0 then show ?thesis by (simp add: Let_def)
  next
    case (Suc j)
    with Cons.prems have "j < length ts" by simp
    from Cons.IH[OF this, of "pos + 1"] Suc show ?thesis by (simp add: Let_def)
  qed
qed

lemma clear_mark_idle:
  "t < length (tracks s) \<Longrightarrow> \<not> seekCompleted (tracks s ! t) \<Longrightarrow>
   upd_track t (\<lambda>tr. tr\<lparr>seekCompleted := False\<rparr>) s = s"
proof -
  assume a: "t < length (tracks s)" "\<not> seekCompleted (tracks s ! t)"
  have "(tracks s ! t)\<lparr>seekCompleted := False\<rparr> = tracks s ! t"
    using a(2) by (cases "tracks s ! t") simp
  then show ?thesis by (simp add: upd_track_def)
qed

lemma setupLoop_length:
  "length (setupLoop env p as vs ts) = length ts + length as + length vs"
  by (induction env p as vs ts rule: setupLoop.induct) simp_all

lemma initialize_tracks:
  assumes "\<not> mInitialized s" and "tracks s = []" and "initialize fuel env s = Some (OK, s')"
  shows "mInitialized s' \<and> length (tracks s') = length (getVideoInfo env (mParser s'))"
  using assms
  by (auto simp: initialize_def Let_def setupTracks_def setupLoop_length
           split: prod.splits if_splits option.splits)

text \<open>The small container initializes to the state \<open>example_state True\<close>.\<close>

lemma example_initialize:
  "initialize 1 (example_env sk) (AsfExtractor_new False) = Some (OK, example_state True sk)"
  by (cases sk) (simp_all add: initialize_def ex_defs AsfExtractor_new_def
      stored64_def le64_def bytes_of64_def Let_def setupTracks_def
      videoTrack_def durationUs_def setConfigData_def FourCC2MIME_def FOURCC_def SCALE_100_NANOSEC_TO_USEC_def)

lemma trackByIndexFrom_first:
  "ts \<noteq> [] \<Longrightarrow> index \<le> 0 \<Longrightarrow> trackByIndexFrom pos ts index = Some pos"
  by (cases ts) simp_all

lemma initialize_again: "mInitialized s \<Longrightarrow> initialize fuel env s = Some (OK, s)"
  by (simp add: initialize_def)

text \<open>
  Claim C10, as the code has it. \<^verbatim>\<open>read\<close> takes the index as an \<^verbatim>\<open>int\<close>: for every index
  that is at least the number of tracks the lookup yields the null pointer, and \<^verbatim>\<open>read\<close>
  returns \<open>BAD_VALUE\<close> with no buffer and leaves the extractor as it is. \<^verbatim>\<open>getTrack\<close> and
  \<^verbatim>\<open>getTrackMetaData\<close> take a \<^verbatim>\<open>size_t\<close> and hand it to the same lookup, whose parameter
  is an \<^verbatim>\<open>int\<close>. On an initialized extractor they return null, and leave the extractor as
  it is, when the converted index is at least the number of tracks. When the converted
  index is below the number of tracks, which is so for every \<^verbatim>\<open>size_t\<close> whose low 32 bits
  read as a negative \<^verbatim>\<open>int\<close> or as zero, however large the \<^verbatim>\<open>size_t\<close> is, the lookup
  yields a track, the first one for a negative index: \<^verbatim>\<open>getTrack\<close> returns a source and
  activates that track, and \<^verbatim>\<open>getTrackMetaData\<close> returns its attributes. For these
  indices the two calls do not return null.
\<close>

theorem track_index_out_of_range:
  "(int (length (tracks s)) \<le> trackIndex \<longrightarrow>
      getTrackByTrackIndex s trackIndex = None
    \<and> read fuel env trackIndex options s = Some (Ret (BAD_VALUE, None, s)))
   \<and> (mInitialized s \<and> int (length (tracks s)) \<le> size_t_to_int index \<longrightarrow>
        getTrack fuel env index s = Some (None, s)
      \<and> getTrackMetaData fuel env index s = Some (None, s))
   \<and> (mInitialized s \<and> tracks s \<noteq> [] \<and> size_t_to_int index < int (length (tracks s)) \<longrightarrow>
        getTrack fuel env index s
          = Some (Some (size_t_to_int index),
                  upd_track (nat (size_t_to_int index)) (\<lambda>tr. tr\<lparr>skipTrack := False\<rparr>) s)
      \<and> getTrackMetaData fuel env index s
          = Some (Some (meta (tracks s ! nat (size_t_to_int index))), s))"
  (is "?A \<and> ?B \<and> ?C")
proof -
  have A: ?A
  proof
    assume "int (length (tracks s)) \<le> trackIndex"
    then have n: "getTrackByTrackIndex s trackIndex = None"
      by (simp add: getTrackByTrackIndex_def trackByIndexFrom_None)
    then show "getTrackByTrackIndex s trackIndex = None
       \<and> read fuel env trackIndex options s = Some (Ret (BAD_VALUE, None, s))"
      by (simp add: read_def)
  qed
  have B: ?B
  proof (intro impI, elim conjE)
    assume i: "mInitialized s" and "int (length (tracks s)) \<le> size_t_to_int index"
    then have n: "getTrackByTrackIndex s (size_t_to_int index) = None"
      by (simp add: getTrackByTrackIndex_def trackByIndexFrom_None)
    with initialize_again[OF i, of fuel env]
    show "getTrack fuel env index s = Some (None, s)
      \<and> getTrackMetaData fuel env index s = Some (None, s)"
      by (simp add: getTrack_def getTrackMetaData_def)
  qed
  have C: ?C
  proof (intro impI, elim conjE)
    assume i: "mInitialized s" and ne: "tracks s \<noteq> []"
      and lt: "size_t_to_int index < int (length (tracks s))"
    have n: "getTrackByTrackIndex s (size_t_to_int index) = Some (nat (size_t_to_int index))"
    proof (cases "0 \<le> size_t_to_int index")
      case True
      from trackByIndexFrom_Some[OF True lt, of 0] show ?thesis
        by (simp add: getTrackByTrackIndex_def)
    next
      case False
      then have "size_t_to_int index \<le> 0" by simp
      from trackByIndexFrom_first[OF ne this, of 0] False show ?thesis
        by (simp add: getTrackByTrackIndex_def)
    qed
    with initialize_again[OF i, of fuel env]
    show "getTrack fuel env index s
          = Some (Some (size_t_to_int index),
                  upd_track (nat (size_t_to_int index)) (\<lambda>tr. tr\<lparr>skipTrack := False\<rparr>) s)
      \<and> getTrackMetaData fuel env index s
          = Some (Some (meta (tracks s ! nat (size_t_to_int index))), s)"
      by (simp add: getTrack_def getTrackMetaData_def)
  qed
  from A B C show ?thesis by (intro conjI)
qed

theorem track_index_out_of_range_witness:
  "length (tracks (example_state True False)) = 2
   \<and> read 0 (example_env False) 2 None (example_state True False)
        = Some (Ret (BAD_VALUE, None, example_state True False))
   \<and> getTrack 0 (example_env False) 2 (example_state True False)
        = Some (None, example_state True False)
   \<and> getTrackMetaData 0 (example_env False) 2 (example_state True False)
        = Some (None, example_state True False)
   \<and> size_t_to_int 4294967295 = - 1
   \<and> getTrack 0 (example_env False) 4294967295 (example_state True False)
        = Some (Some (- 1),
                upd_track 0 (\<lambda>tr. tr\<lparr>skipTrack := False\<rparr>) (example_state True False))
   \<and> skipTrack (tracks (example_state True False) ! 0)
   \<and> \<not> skipTrack (tracks (upd_track 0 (\<lambda>tr. tr\<lparr>skipTrack := False\<rparr>) (example_state True False)) ! 0)
   \<and> getTrackMetaData 0 (example_env False) 4294967295 (example_state True False)
        = Some (Some (meta (example_track True False 1)), example_state True False)"
proof -
  let ?s = "example_state True False"
  have l: "length (tracks ?s) = 2" by (simp add: example_state_def)
  have i: "mInitialized ?s" by (simp add: example_state_def)
  have ne: "tracks ?s \<noteq> []" by (simp add: example_state_def)
  have c2: "size_t_to_int 2 = 2" by (simp add: size_t_to_int_def)
  have cm: "size_t_to_int 4294967295 = - 1" by (simp add: size_t_to_int_def)
  have t0: "tracks ?s ! 0 = example_track True False 1" by (simp add: example_state_def)
  have sk: "skipTrack (tracks ?s ! 0)" by (simp add: example_state_def example_track_def)
  have sk': "\<not> skipTrack (tracks (upd_track 0 (\<lambda>tr. tr\<lparr>skipTrack := False\<rparr>) ?s) ! 0)"
    by (simp add: upd_track_def example_state_def)
  note th1 = track_index_out_of_range[where s = ?s and trackIndex = 2 and index = 2
      and fuel = 0 and env = "example_env False" and options = None]
  note th2 = track_index_out_of_range[where s = ?s and trackIndex = 2 and index = 4294967295
      and fuel = 0 and env = "example_env False" and options = None]
  from th1 l have a: "read 0 (example_env False) 2 None ?s = Some (Ret (BAD_VALUE, None, ?s))"
    by simp
  from th1 l i c2 have b: "getTrack 0 (example_env False) 2 ?s = Some (None, ?s)"
    "getTrackMetaData 0 (example_env False) 2 ?s = Some (None, ?s)" by simp_all
  from th2 l i ne cm have c: "getTrack 0 (example_env False) 4294967295 ?s
        = Some (Some (- 1), upd_track 0 (\<lambda>tr. tr\<lparr>skipTrack := False\<rparr>) ?s)"
    "getTrackMetaData 0 (example_env False) 4294967295 ?s
        = Some (Some (meta (example_track True False 1)), ?s)" by (simp_all add: t0)
  from l a b cm c sk sk' show ?thesis by (intro conjI)
qed

text \<open>
  Claim C9. The mark is tested before the options are looked at: on a marked track, or
  with options that carry no seek request, \<^verbatim>\<open>seek_l\<close> returns \<open>OK\<close> and the extractor
  differs from the one before at most in the mark of the track, which is clear
  afterwards; the cursor, the queues and the in-progress buffers are the same. A read
  with such options is the read loop run on that extractor.
\<close>

theorem seek_mark_consumed:
  assumes "t < length (tracks s)"
  shows "(seekCompleted (tracks s ! t) \<or> getSeekTo opts = None \<longrightarrow>
            seek_l env t opts s = (OK, upd_track t (\<lambda>tr. tr\<lparr>seekCompleted := False\<rparr>) s)
          \<and> (getTrackByTrackIndex s trackIndex = Some t \<longrightarrow>
               read fuel env trackIndex (Some opts) s =
               read_l fuel env t (upd_track t (\<lambda>tr. tr\<lparr>seekCompleted := False\<rparr>) s)))
       \<and> mDataPacketCurrentOffset (upd_track t (\<lambda>tr. tr\<lparr>seekCompleted := False\<rparr>) s)
           = mDataPacketCurrentOffset s
       \<and> map bufferQueue (tracks (upd_track t (\<lambda>tr. tr\<lparr>seekCompleted := False\<rparr>) s))
           = map bufferQueue (tracks s)
       \<and> map bufferActive (tracks (upd_track t (\<lambda>tr. tr\<lparr>seekCompleted := False\<rparr>) s))
           = map bufferActive (tracks s)
       \<and> \<not> seekCompleted (tracks (upd_track t (\<lambda>tr. tr\<lparr>seekCompleted := False\<rparr>) s) ! t)"
proof -
  let ?s' = "upd_track t (\<lambda>tr. tr\<lparr>seekCompleted := False\<rparr>) s"
  have sk: "seek_l env t opts s = (OK, ?s')" if "seekCompleted (tracks s ! t) \<or> getSeekTo opts = None"
  proof (cases "seekCompleted (tracks s ! t)")
    case True
    then show ?thesis by (simp add: seek_l_def)
  next
    case False
    with that have "getSeekTo opts = None" by simp
    with False assms show ?thesis by (simp add: seek_l_def clear_mark_idle)
  qed
  have rd: "read fuel env trackIndex (Some opts) s = read_l fuel env t ?s'"
    if "seekCompleted (tracks s ! t) \<or> getSeekTo opts = None" "getTrackByTrackIndex s trackIndex = Some t"
    using sk[OF that(1)] that(2) by (simp add: read_def)
  have q: "map bufferQueue (tracks ?s') = map bufferQueue (tracks s)"
    using assms by (simp add: upd_track_def map_update list_update_same_conv)
  have a: "map bufferActive (tracks ?s') = map bufferActive (tracks s)"
    using assms by (simp add: upd_track_def map_update list_update_same_conv)
  have c: "mDataPacketCurrentOffset ?s' = mDataPacketCurrentOffset s"
    by (simp add: upd_track_def)
  have m: "\<not> seekCompleted (tracks ?s' ! t)"
    using assms by (simp add: upd_track_def)
  from sk rd q a c m show ?thesis by blast
qed

theorem seek_mark_consumed_witness:
  "seekCompleted (tracks (upd_track 1 (\<lambda>tr. tr\<lparr>seekCompleted := True\<rparr>) (example_state False True)) ! 1)
   \<and> seek_l (example_env True) 1 \<lparr>getSeekTo = None, getLateBy = 5\<rparr>
        (upd_track 1 (\<lambda>tr. tr\<lparr>seekCompleted := True\<rparr>) (example_state False True))
      = (OK, example_state False True)
   \<and> read 1 (example_env True) 1 (Some \<lparr>getSeekTo = None, getLateBy = 5\<rparr>)
        (upd_track 1 (\<lambda>tr. tr\<lparr>seekCompleted := True\<rparr>) (example_state False True))
      = read_l 1 (example_env True) 1 (example_state False True)"
  using seek_mark_consumed[where s = "upd_track 1 (\<lambda>tr. tr\<lparr>seekCompleted := True\<rparr>) (example_state False True)"
      and t = 1 and opts = "\<lparr>getSeekTo = None, getLateBy = 5\<rparr>" and env = "example_env True"
      and trackIndex = 1 and fuel = 1]
  by (simp add: example_state_def example_track_def upd_track_def getTrackByTrackIndex_def)

text \<open>
  Claim C4. After a successful seek that came from track \<open>a\<close>, the cursor is
  \<open>begin + packetNumber * packetSize\<close>, every track has an empty queue and no
  in-progress buffer, every track but \<open>a\<close> is marked and \<open>a\<close> is not; a later seek on a
  marked track \<open>b\<close>, whatever its options and whatever the parser would answer, returns
  \<open>OK\<close> and only clears the mark of \<open>b\<close>: cursor, parser state, queues and in-progress
  buffers stay as they are.
\<close>

theorem seek_flushes:
  assumes "a < length (tracks s)"
      and "\<not> seekCompleted (tracks s ! a)"
      and "getSeekTo opts = Some (seekTimeUs, mode)"
      and "seek env (seekTimeUs * SCALE_100_NANOSEC_TO_USEC) (mode = SEEK_NEXT_SYNC) (mParser s)
             = (Some (packetNumber, targetTime), p')"
  shows "\<exists>s'. seek_l env a opts s = (OK, s')
       \<and> mDataPacketCurrentOffset s' = mDataPacketBeginOffset s + ucast packetNumber * mDataPacketSize s
       \<and> length (tracks s') = length (tracks s)
       \<and> (\<forall>i < length (tracks s').
             bufferQueue (tracks s' ! i) = [] \<and> bufferActive (tracks s' ! i) = None
           \<and> (seekCompleted (tracks s' ! i) \<longleftrightarrow> i \<noteq> a))
       \<and> (\<forall>b < length (tracks s'). b \<noteq> a \<longrightarrow>
             (\<forall>env2 opts2.
                seek_l env2 b opts2 s' = (OK, upd_track b (\<lambda>tr. tr\<lparr>seekCompleted := False\<rparr>) s'))
           \<and> \<not> seekCompleted (tracks (upd_track b (\<lambda>tr. tr\<lparr>seekCompleted := False\<rparr>) s') ! b)
           \<and> mDataPacketCurrentOffset (upd_track b (\<lambda>tr. tr\<lparr>seekCompleted := False\<rparr>) s')
               = mDataPacketCurrentOffset s'
           \<and> mParser (upd_track b (\<lambda>tr. tr\<lparr>seekCompleted := False\<rparr>) s') = mParser s'
           \<and> map bufferQueue (tracks (upd_track b (\<lambda>tr. tr\<lparr>seekCompleted := False\<rparr>) s'))
               = map bufferQueue (tracks s')
           \<and> map bufferActive (tracks (upd_track b (\<lambda>tr. tr\<lparr>seekCompleted := False\<rparr>) s'))
               = map bufferActive (tracks s'))"
proof -
  define s' where "s' = s\<lparr>mParser := p',
        mDataPacketCurrentOffset := mDataPacketBeginOffset s + ucast packetNumber * mDataPacketSize s,
        tracks := flushTracks a 0 (tracks s)\<rparr>"
  have r: "seek_l env a opts s = (OK, s')"
    using assms by (simp add: seek_l_def s'_def)
  have c: "mDataPacketCurrentOffset s' = mDataPacketBeginOffset s + ucast packetNumber * mDataPacketSize s"
    by (simp add: s'_def)
  have l: "length (tracks s') = length (tracks s)"
    by (simp add: s'_def flushTracks_length)
  have f: "bufferQueue (tracks s' ! i) = [] \<and> bufferActive (tracks s' ! i) = None
           \<and> (seekCompleted (tracks s' ! i) \<longleftrightarrow> i \<noteq> a)" if "i < length (tracks s')" for i
  proof -
    from that l have i: "i < length (tracks s)" by simp
    show ?thesis using assms(2) by (simp add: s'_def flushTracks_nth[OF i])
  qed
  have g: "(\<forall>env2 opts2.
                seek_l env2 b opts2 s' = (OK, upd_track b (\<lambda>tr. tr\<lparr>seekCompleted := False\<rparr>) s'))
           \<and> \<not> seekCompleted (tracks (upd_track b (\<lambda>tr. tr\<lparr>seekCompleted := False\<rparr>) s') ! b)
           \<and> mDataPacketCurrentOffset (upd_track b (\<lambda>tr. tr\<lparr>seekCompleted := False\<rparr>) s')
               = mDataPacketCurrentOffset s'
           \<and> mParser (upd_track b (\<lambda>tr. tr\<lparr>seekCompleted := False\<rparr>) s') = mParser s'
           \<and> map bufferQueue (tracks (upd_track b (\<lambda>tr. tr\<lparr>seekCompleted := False\<rparr>) s'))
               = map bufferQueue (tracks s')
           \<and> map bufferActive (tracks (upd_track b (\<lambda>tr. tr\<lparr>seekCompleted := False\<rparr>) s'))
               = map bufferActive (tracks s')" if "b < length (tracks s')" "b \<noteq> a" for b
  proof -
    from f[OF that(1)] that(2) have mk: "seekCompleted (tracks s' ! b)" by simp
    then have "\<forall>env2 opts2. seek_l env2 b opts2 s' = (OK, upd_track b (\<lambda>tr. tr\<lparr>seekCompleted := False\<rparr>) s')"
      by (simp add: seek_l_def)
    then show ?thesis
      using that(1) by (simp add: upd_track_def map_update list_update_same_conv)
  qed
  from r c l f g show ?thesis by blast
qed

theorem seek_flushes_witness:
  "\<exists>s'. seek_l (example_env True) 0 \<lparr>getSeekTo = Some (1, SEEK_CLOSEST_SYNC), getLateBy = 0\<rparr>
           (example_state False True) = (OK, s')
       \<and> mDataPacketCurrentOffset s' = 78
       \<and> bufferQueue (tracks s' ! 0) = [] \<and> bufferActive (tracks s' ! 0) = None
       \<and> bufferQueue (tracks s' ! 1) = [] \<and> bufferActive (tracks s' ! 1) = None
       \<and> \<not> seekCompleted (tracks s' ! 0) \<and> seekCompleted (tracks s' ! 1)
       \<and> seek_l (example_env True) 1 \<lparr>getSeekTo = Some (1, SEEK_CLOSEST_SYNC), getLateBy = 0\<rparr> s'
           = (OK, upd_track 1 (\<lambda>tr. tr\<lparr>seekCompleted := False\<rparr>) s')"
proof -
  have h3: "getSeekTo \<lparr>getSeekTo = Some (1, SEEK_CLOSEST_SYNC), getLateBy = 0\<rparr> = Some (1, SEEK_CLOSEST_SYNC)"
    by simp
  have h4: "seek (example_env True) (1 * SCALE_100_NANOSEC_TO_USEC) (SEEK_CLOSEST_SYNC = SEEK_NEXT_SYNC)
              (mParser (example_state False True)) = (Some (1, 10), True)"
    by (simp add: example_env_def example_state_def SCALE_100_NANOSEC_TO_USEC_def)
  have h1: "0 < length (tracks (example_state False True))" by (simp add: example_state_def)
  have h2: "\<not> seekCompleted (tracks (example_state False True) ! 0)"
    by (simp add: example_state_def example_track_def)
  from seek_flushes[OF h1 h2 h3 h4] obtain s' where
    r: "seek_l (example_env True) 0 \<lparr>getSeekTo = Some (1, SEEK_CLOSEST_SYNC), getLateBy = 0\<rparr>
           (example_state False True) = (OK, s')"
    and c: "mDataPacketCurrentOffset s' = mDataPacketBeginOffset (example_state False True)
              + ucast (1 :: 32 word) * mDataPacketSize (example_state False True)"
    and l: "length (tracks s') = length (tracks (example_state False True))"
    and f: "\<forall>i < length (tracks s').
             bufferQueue (tracks s' ! i) = [] \<and> bufferActive (tracks s' ! i) = None
           \<and> (seekCompleted (tracks s' ! i) \<longleftrightarrow> i \<noteq> 0)"
    and g: "\<forall>b < length (tracks s'). b \<noteq> 0 \<longrightarrow>
             (\<forall>env2 opts2.
                seek_l env2 b opts2 s' = (OK, upd_track b (\<lambda>tr. tr\<lparr>seekCompleted := False\<rparr>) s'))"
    by blast
  from l have l2: "length (tracks s') = 2" by (simp add: example_state_def)
  from g l2 have g1: "seek_l (example_env True) 1 \<lparr>getSeekTo = Some (1, SEEK_CLOSEST_SYNC), getLateBy = 0\<rparr> s'
           = (OK, upd_track 1 (\<lambda>tr. tr\<lparr>seekCompleted := False\<rparr>) s')" by simp
  from c have c1: "mDataPacketCurrentOffset s' = 78" by (simp add: example_state_def)
  from f l2 have f0: "bufferQueue (tracks s' ! 0) = [] \<and> bufferActive (tracks s' ! 0) = None
       \<and> \<not> seekCompleted (tracks s' ! 0)" by simp
  from f l2 have f1: "bufferQueue (tracks s' ! 1) = [] \<and> bufferActive (tracks s' ! 1) = None
       \<and> seekCompleted (tracks s' ! 1)" by simp
  from r c1 f0 f1 g1 show ?thesis by blast
qed

text \<open>
  Claim C2, as the code has it. \<^verbatim>\<open>seek_l\<close> never asks whether an index was loaded and has
  no outcome of its own for a container without one: its status is \<open>OK\<close> or
  \<open>ERROR_END_OF_STREAM\<close>, never \<open>ERROR_UNSUPPORTED\<close>. A seek request on a track that is
  not marked goes to the parser's time-to-packet query, and when the query fails (as
  it does without an index) the seek returns \<open>ERROR_END_OF_STREAM\<close>, the status of
  every failed translation, and changes nothing but the parser's own state.
\<close>

theorem seek_never_unsupported:
  "fst (seek_l env t opts s) \<noteq> ERROR_UNSUPPORTED
   \<and> (fst (seek_l env t opts s) = OK \<or> fst (seek_l env t opts s) = ERROR_END_OF_STREAM)
   \<and> (\<not> seekCompleted (tracks s ! t) \<longrightarrow> getSeekTo opts = Some (seekTimeUs, mode) \<longrightarrow>
        fst (seek env (seekTimeUs * SCALE_100_NANOSEC_TO_USEC) (mode = SEEK_NEXT_SYNC) (mParser s)) = None \<longrightarrow>
        seek_l env t opts s =
          (ERROR_END_OF_STREAM,
           s\<lparr>mParser := snd (seek env (seekTimeUs * SCALE_100_NANOSEC_TO_USEC) (mode = SEEK_NEXT_SYNC) (mParser s))\<rparr>))"
  by (auto simp: seek_l_def split: option.splits prod.splits)

theorem seek_never_unsupported_witness:
  "\<not> seekCompleted (tracks (example_state False False) ! 0)
   \<and> seek_l (example_env False) 0 \<lparr>getSeekTo = Some (1, SEEK_CLOSEST_SYNC), getLateBy = 0\<rparr>
        (example_state False False) = (ERROR_END_OF_STREAM, example_state False False)"
  using seek_never_unsupported[where s = "example_state False False" and t = 0
      and opts = "\<lparr>getSeekTo = Some (1, SEEK_CLOSEST_SYNC), getLateBy = 0\<rparr>"
      and env = "example_env False" and seekTimeUs = 1 and mode = SEEK_CLOSEST_SYNC]
  by (simp add: example_state_def example_track_def example_env_def)

text \<open>
  Claim C2 as stated fails: on the small container without an index the seek returns
  \<open>ERROR_END_OF_STREAM\<close>, which is also what a seek past the last index entry returns
  when an index is loaded; the outcome is neither "unsupported" nor distinct.
\<close>

theorem seek_unsupported_counterexample:
  "\<not> mParser (example_state False False)
   \<and> fst (seek_l (example_env False) 0 \<lparr>getSeekTo = Some (1, SEEK_CLOSEST_SYNC), getLateBy = 0\<rparr>
        (example_state False False)) = ERROR_END_OF_STREAM
   \<and> fst (seek_l (example_env True) 0 \<lparr>getSeekTo = Some (5, SEEK_CLOSEST_SYNC), getLateBy = 0\<rparr>
        (example_state False True)) = ERROR_END_OF_STREAM
   \<and> ERROR_END_OF_STREAM \<noteq> ERROR_UNSUPPORTED"
  by (simp add: seek_l_def example_state_def example_track_def example_env_def
      SCALE_100_NANOSEC_TO_USEC_def)

text \<open>
  Claim C1, as the code has it. \<^verbatim>\<open>setupTracks\<close> walks the video descriptors only (audio
  is disabled there), so after a successful initialization of a new extractor
  \<open>countTracks\<close> is the number of video descriptors of the parser, and a repeated call
  returns the same number and leaves the extractor as it is.
\<close>

theorem countTracks_video_only:
  assumes "\<not> mInitialized s" and "tracks s = []" and "initialize fuel env s = Some (OK, s')"
  shows "countTracks fuel env s = Some (length (getVideoInfo env (mParser s')), s')
       \<and> countTracks fuel2 env s' = Some (length (getVideoInfo env (mParser s')), s')"
proof -
  from initialize_tracks[OF assms] have i: "mInitialized s'"
    and l: "length (tracks s') = length (getVideoInfo env (mParser s'))" by simp_all
  from i have "initialize fuel2 env s' = Some (OK, s')" by (simp add: initialize_def)
  with assms(3) l show ?thesis by (simp add: countTracks_def)
qed

theorem countTracks_video_only_witness:
  "countTracks 1 (example_env False) (AsfExtractor_new False) = Some (2, example_state True False)
   \<and> countTracks 0 (example_env False) (example_state True False) = Some (2, example_state True False)"
  using countTracks_video_only[of "AsfExtractor_new False" 1 "example_env False" "example_state True False" 0]
    example_initialize[of False]
  by (simp add: AsfExtractor_new_def example_env_def example_state_def)

text \<open>
  Claim C1 as stated fails: the small container has one audio and two video descriptors,
  initialization succeeds, and \<open>countTracks\<close> is 2, not 3.
\<close>

theorem countTracks_audio_counterexample:
  "initialize 1 (example_env False) (AsfExtractor_new False) = Some (OK, example_state True False)
   \<and> countTracks 1 (example_env False) (AsfExtractor_new False) = Some (2, example_state True False)
   \<and> length (getAudioInfo (example_env False) (mParser (example_state True False)))
       + length (getVideoInfo (example_env False) (mParser (example_state True False))) = 3"
  using example_initialize[of False]
  by (simp add: countTracks_def example_env_def example_state_def)

subsection \<open>The packet demultiplexer\<close>


lemma bufferSize_unat:
  assumes "unat (mediaObjectLength p) \<le> 2 ^ 31 - 4096"
  shows "unat (bufferSize p) = (unat (mediaObjectLength p) + 4095) div 4096 * 4096"
proof -
  let ?L = "mediaObjectLength p"
  let ?n = "unat ?L"
  have e: "?L + 4096 - 1 = ?L + 4095" by simp
  have "unat ?L + unat (4095 :: 32 word) < 2 ^ 32" using assms by simp
  then have a: "unat (?L + 4095) = ?n + 4095"
    by (simp add: unat_add_lem[THEN iffD1])
  have d: "unat ((?L + 4095) div 4096) = (?n + 4095) div 4096"
    by (simp add: unat_div a)
  have "(?n + 4095) div 4096 * 4096 \<le> ?n + 4095" by (rule div_times_less_eq_dividend)
  with assms have "unat ((?L + 4095) div 4096) * unat (4096 :: 32 word) < 2 ^ 32"
    by (simp add: d)
  then have "unat ((?L + 4095) div 4096 * 4096) = unat ((?L + 4095) div 4096) * unat (4096 :: 32 word)"
    by (simp add: unat_mult_lem[THEN iffD1])
  then show ?thesis unfolding bufferSize_def e by (simp add: d)
qed

lemma allocSize_bounded:
  assumes "unat (mediaObjectLength p) \<le> 2 ^ 31 - 4096"
  shows "allocSize p = (unat (mediaObjectLength p) + 4095) div 4096 * 4096"
proof -
  let ?n = "unat (mediaObjectLength p)"
  let ?z = "(?n + 4095) div 4096 * 4096"
  have u: "unat (bufferSize p) = ?z" by (rule bufferSize_unat[OF assms])
  have "?z \<le> ?n + 4095" by (rule div_times_less_eq_dividend)
  with assms have lt: "?z < 2 ^ 31" by simp
  have "uint (bufferSize p) = int ?z" using u by (simp flip: u)
  moreover have "int ?z < 2 ^ 31" using lt by (metis of_nat_less_iff of_nat_numeral of_nat_power)
  ultimately have "sint (bufferSize p) = int ?z"
    by (simp add: sint_uint signed_take_bit_int_eq_self)
  moreover have "int ?z mod 2 ^ 64 = int ?z"
  proof -
    have "int ?z < 2 ^ 64" using \<open>int ?z < 2 ^ 31\<close> by simp
    then show ?thesis by simp
  qed
  ultimately show ?thesis by (simp add: allocSize_def)
qed

lemma allocSize_bounds:
  assumes "unat (mediaObjectLength p) \<le> 2 ^ 31 - 4096"
  shows "unat (mediaObjectLength p) \<le> allocSize p
       \<and> allocSize p < unat (mediaObjectLength p) + 4096 \<and> 4096 dvd allocSize p"
proof -
  let ?n = "unat (mediaObjectLength p) + 4095"
  have a: "?n div 4096 * 4096 \<le> ?n" by (rule div_times_less_eq_dividend)
  have b: "?n < 4096 + 4096 * (?n div 4096)" by (rule dividend_less_times_div) simp
  have c: "4096 dvd ?n div 4096 * 4096" by simp
  from a b have "unat (mediaObjectLength p) \<le> ?n div 4096 * 4096
       \<and> ?n div 4096 * 4096 < unat (mediaObjectLength p) + 4096" by arith
  with c show ?thesis unfolding allocSize_bounded[OF assms] by blast
qed

text \<open>
  Beyond the bound the \<^verbatim>\<open>int\<close> that holds the size is negative, or the 32-bit expression
  has wrapped to zero.
\<close>

lemma allocSize_beyond:
  "mediaObjectLength p = 0x7FFFF001 \<Longrightarrow> sint (bufferSize p) = - (2 ^ 31) \<and> allocSize p = 2 ^ 64 - 2 ^ 31"
  by (simp add: allocSize_def bufferSize_def)

lemma allocSize_zero:
  "mediaObjectLength p = 0xFFFFF001 \<Longrightarrow> allocSize p = 0"
  by (simp add: allocSize_def bufferSize_def)

lemma trackByStreamFrom_bound:
  "trackByStreamFrom pos ts stream = Some i \<Longrightarrow> pos \<le> i \<and> i < pos + length ts"
proof (induction ts arbitrary: pos)
  case Nil then show ?case by simp
next
  case (Cons a ts)
  show ?case
  proof (cases "uint (streamNumber a) = stream")
    case True with Cons.prems show ?thesis by simp
  next
    case False
    with Cons.prems have "trackByStreamFrom (pos + 1) ts stream = Some i" by simp
    from Cons.IH[OF this] show ?thesis by simp
  qed
qed

lemma getTrackByStreamNumber_bound:
  "getTrackByStreamNumber s stream = Some i \<Longrightarrow> i < length (tracks s)"
  using trackByStreamFrom_bound[of 0 "tracks s" stream i] by (simp add: getTrackByStreamNumber_def)

lemma memcpy_fresh:
  "length src \<le> n \<Longrightarrow> memcpy (replicate n None) 0 src = Some (map Some src @ replicate (n - length src) None)"
  by (simp add: memcpy_def)

lemma payloadBytes_length: "length (payloadBytes p) = unat (payloadSize p)"
proof -
  have "unat (payloadSize p) \<le> length (payloadData p)"
    by (simp add: payloadSize_def unat_of_nat)
  then show ?thesis by (simp add: payloadBytes_def)
qed

lemma processPayload_whole:
  assumes "getTrackByStreamNumber s (int (payloadStreamNumber p)) = Some i"
      and "\<not> skipTrack (tracks s ! i)"
      and "mediaObjectLength p = payloadSize p"
      and "unat (mediaObjectLength p) \<le> 2 ^ 31 - 4096"
      and "new_ok env (allocSize p)"
  shows "processPayload env p s =
           Ret (OK, upd_track i
             (\<lambda>tr. tr\<lparr>bufferQueue := bufferQueue tr @ [wholeBuffer (length (heap s)) p]\<rparr>)
             (s\<lparr>heap := heap s @
                [map Some (payloadBytes p) @ replicate (allocSize p - length (payloadBytes p)) None]\<rparr>))"
proof -
  have "length (payloadBytes p) \<le> allocSize p"
    using allocSize_bounds[OF assms(4)] assms(3) by (simp add: payloadBytes_length)
  from memcpy_fresh[OF this] assms(1,2,3,5) show ?thesis
    by (simp add: processPayload_def Let_def wholeBuffer_def)
qed



lemma readPacket_parse_fail:
  assumes "mDataPacketData s = Some packetData"
      and "\<not> mDataPacketEndOffset s <s mDataPacketCurrentOffset s + mDataPacketSize s"
      and "readAt env (mDataPacketCurrentOffset s) (unat (mDataPacketSize s)) = (sint (mDataPacketSize s), bytes)"
      and "parseDataPacket env bytes (mParser s) = (None, p') \<or> parseDataPacket env bytes (mParser s) = (Some [], p')"
  shows "readPacket env s =
           Ret (ERROR_END_OF_STREAM,
                s\<lparr>mDataPacketData := Some (overlay bytes packetData),
                  mDataPacketCurrentOffset := mDataPacketCurrentOffset s + mDataPacketSize s,
                  mParser := p'\<rparr>)"
  using assms by (auto simp: readPacket_def Let_def)

lemma readPacket_payloads:
  assumes "mDataPacketData s = Some packetData"
      and "\<not> mDataPacketEndOffset s <s mDataPacketCurrentOffset s + mDataPacketSize s"
      and "readAt env (mDataPacketCurrentOffset s) (unat (mDataPacketSize s)) = (sint (mDataPacketSize s), bytes)"
      and "parseDataPacket env bytes (mParser s) = (Some (p # ps), p')"
  shows "readPacket env s =
           processPayloads env (p # ps)
               (s\<lparr>mDataPacketData := Some (overlay bytes packetData),
                  mDataPacketCurrentOffset := mDataPacketCurrentOffset s + mDataPacketSize s,
                  mParser := p'\<rparr>)"
  using assms by (simp add: readPacket_def Let_def)

lemma readPacket_end:
  assumes "mDataPacketEndOffset s <s mDataPacketCurrentOffset s + mDataPacketSize s"
  shows "readPacket env s = Ret (ERROR_END_OF_STREAM, s)"
  using assms by (simp add: readPacket_def)

lemma readPacket_short:
  assumes "mDataPacketData s = Some packetData"
      and "\<not> mDataPacketEndOffset s <s mDataPacketCurrentOffset s + mDataPacketSize s"
      and "fst (readAt env (mDataPacketCurrentOffset s) (unat (mDataPacketSize s))) \<noteq> sint (mDataPacketSize s)"
  shows "readPacket env s =
           Ret (ERROR_END_OF_STREAM,
                s\<lparr>mDataPacketData := Some (overlay
                     (snd (readAt env (mDataPacketCurrentOffset s) (unat (mDataPacketSize s)))) packetData)\<rparr>)"
proof (cases "readAt env (mDataPacketCurrentOffset s) (unat (mDataPacketSize s))")
  case (Pair ret bytes)
  with assms show ?thesis by (simp add: readPacket_def Let_def)
qed

text \<open>The payload loop touches the tracks and the store only.\<close>

lemma processPayload_region:
  "processPayload env p s = Ret (st, s') \<Longrightarrow> region s' = region s"
  by (auto simp: processPayload_def Let_def upd_track_def region_def
           split: option.splits if_splits)

lemma processPayloads_region:
  "processPayloads env ps s = Ret (st, s') \<Longrightarrow> region s' = region s"
proof (induction ps arbitrary: s)
  case Nil then show ?case by simp
next
  case (Cons p ps)
  show ?case
  proof (cases "processPayload env p s")
    case Fault with Cons.prems show ?thesis by simp
  next
    case (Ret r)
    obtain st1 s1 where r: "r = (st1, s1)" by (cases r)
    from processPayload_region[of env p s st1 s1] Ret r have 1: "region s1 = region s" by simp
    show ?thesis
    proof (cases "st1 = OK")
      case True
      with Cons.prems Ret r have "processPayloads env ps s1 = Ret (st, s')" by simp
      from Cons.IH[OF this] 1 show ?thesis by simp
    next
      case False
      with Cons.prems Ret r 1 show ?thesis by simp
    qed
  qed
qed

lemma readPacket_region:
  assumes d: "mDataPacketData s = Some packetData"
      and r: "readPacket env s = Ret (st, s')"
  shows "region s' = region s
       \<or> (\<not> mDataPacketEndOffset s <s mDataPacketCurrentOffset s + mDataPacketSize s
          \<and> fst (readAt env (mDataPacketCurrentOffset s) (unat (mDataPacketSize s))) = sint (mDataPacketSize s)
          \<and> region s' = (mDataPacketBeginOffset s, mDataPacketEndOffset s,
                          mDataPacketCurrentOffset s + mDataPacketSize s, mDataPacketSize s))"
proof (cases "mDataPacketEndOffset s <s mDataPacketCurrentOffset s + mDataPacketSize s")
  case True
  from readPacket_end[OF True, of env] r show ?thesis by simp
next
  case nc: False
  obtain ret bytes where ra: "readAt env (mDataPacketCurrentOffset s) (unat (mDataPacketSize s)) = (ret, bytes)"
    by (cases "readAt env (mDataPacketCurrentOffset s) (unat (mDataPacketSize s))")
  show ?thesis
  proof (cases "ret = sint (mDataPacketSize s)")
    case False
    with ra have "fst (readAt env (mDataPacketCurrentOffset s) (unat (mDataPacketSize s))) \<noteq> sint (mDataPacketSize s)"
      by simp
    from readPacket_short[OF d nc this] r show ?thesis by (auto simp: region_def)
  next
    case True
    with ra have ra': "readAt env (mDataPacketCurrentOffset s) (unat (mDataPacketSize s)) = (sint (mDataPacketSize s), bytes)"
      by simp
    let ?s1 = "\<lambda>p'. s\<lparr>mDataPacketData := Some (overlay bytes packetData),
                  mDataPacketCurrentOffset := mDataPacketCurrentOffset s + mDataPacketSize s,
                  mParser := p'\<rparr>"
    obtain res p' where pa: "parseDataPacket env bytes (mParser s) = (res, p')"
      by (cases "parseDataPacket env bytes (mParser s)")
    have reg1: "region (?s1 p') = (mDataPacketBeginOffset s, mDataPacketEndOffset s,
                          mDataPacketCurrentOffset s + mDataPacketSize s, mDataPacketSize s)"
      by (simp add: region_def)
    have "region s' = region (?s1 p')"
    proof (cases res)
      case None
      with pa readPacket_parse_fail[OF d nc ra', of p'] r show ?thesis by simp
    next
      case (Some pl)
      show ?thesis
      proof (cases pl)
        case Nil
        with Some pa readPacket_parse_fail[OF d nc ra', of p'] r show ?thesis by simp
      next
        case (Cons q qs)
        with Some pa have "parseDataPacket env bytes (mParser s) = (Some (q # qs), p')" by simp
        from readPacket_payloads[OF d nc ra' this] r
        have "processPayloads env (q # qs) (?s1 p') = Ret (st, s')" by simp
        then show ?thesis by (rule processPayloads_region)
      qed
    qed
    with reg1 nc ra' show ?thesis by simp
  qed
qed

lemma sint_add_no_overflow:
  fixes c z :: "64 word"
  assumes "0 \<le> sint z" and "sint c + sint z < 2 ^ 63"
  shows "sint (c + z) = sint c + sint z"
proof -
  have "- (2 ^ 63) \<le> sint c" using sint_ge[of c] by simp
  with assms have "- (2 ^ 63) \<le> sint c + sint z" by simp
  with assms(2) have "signed_take_bit 63 (sint c + sint z) = sint c + sint z"
    by (intro signed_take_bit_int_eq_self) auto
  then show ?thesis by (simp add: sint_word_add)
qed

lemma example_packet1:
  "readAt (example_env sk) 74 4 = (4, [0, 0, 0, 0])"
  by (simp add: example_env_def example_file_def)

lemma example_packet2:
  "readAt (example_env sk) 78 4 = (4, [1, 1, 0, 7])"
  by (simp add: example_env_def example_file_def)

lemma example_crossing:
  "\<not> mDataPacketEndOffset (example_state sk ix) <s
       mDataPacketCurrentOffset (example_state sk ix) + mDataPacketSize (example_state sk ix)"
  by (simp add: example_state_def word_sless_alt)

lemma example_read1:
  "readAt (example_env ix) (mDataPacketCurrentOffset (example_state sk ix))
      (unat (mDataPacketSize (example_state sk ix)))
   = (sint (mDataPacketSize (example_state sk ix)), [0, 0, 0, 0])"
  by (simp add: example_state_def example_packet1)

lemma example_parse1:
  "parseDataPacket (example_env ix) [0, 0, 0, 0] (mParser (example_state sk ix)) = (None, ix)"
  by (simp add: example_env_def example_decode_def example_state_def)

lemma example_readPacket1:
  "readPacket (example_env False) (example_state False False)
          = Ret (ERROR_END_OF_STREAM, example_state2)"
proof -
  have d: "mDataPacketData (example_state False False) = Some (replicate 4 None)"
    by (simp add: example_state_def)
  have e: "example_state False False
             \<lparr>mDataPacketData := Some (overlay [0, 0, 0, 0] (replicate 4 None)),
               mDataPacketCurrentOffset := mDataPacketCurrentOffset (example_state False False)
                  + mDataPacketSize (example_state False False),
               mParser := False\<rparr> = example_state2"
    by (simp add: example_state2_def example_state_def overlay_def)
  from readPacket_parse_fail[OF d example_crossing example_read1 disjI1[OF example_parse1]]
  show ?thesis unfolding e .
qed

lemma example_first_read:
  "read (Suc (Suc 0)) (example_env False) 0 None (example_state False False)
     = Some (Ret (ERROR_END_OF_STREAM, None, example_state2))"
proof -
  have d: "mDataPacketData (example_state False False) = Some (replicate 4 None)"
    by (simp add: example_state_def)
  have q: "bufferQueue (tracks (example_state False False) ! 0) = []"
    by (simp add: example_state_def example_track_def)
  have t: "getTrackByTrackIndex (example_state False False) 0 = Some 0"
    by (simp add: getTrackByTrackIndex_def example_state_def)
  have e: "example_state False False
             \<lparr>mDataPacketData := Some (overlay [0, 0, 0, 0] (replicate 4 None)),
               mDataPacketCurrentOffset := mDataPacketCurrentOffset (example_state False False)
                  + mDataPacketSize (example_state False False),
               mParser := False\<rparr> = example_state2"
    by (simp add: example_state2_def example_state_def overlay_def)
  from readPacket_parse_fail[OF d example_crossing example_read1 disjI1[OF example_parse1]]
  have "readPacket (example_env False) (example_state False False)
          = Ret (ERROR_END_OF_STREAM, example_state2)"
    unfolding e .
  with q t show ?thesis by (simp add: read_def)
qed

lemma example_second_read:
  "status_of (read (Suc (Suc 0)) (example_env False) 0 None example_state2) = Some OK
   \<and> buffer_of (read (Suc (Suc 0)) (example_env False) 0 None example_state2)
       = Some \<lparr>mb_data = 0, mb_size = 4096, range_offset = 0, range_length = 1,
               meta_data = [(kKeyTime, MInt64 0), (kKeyIsSyncFrame, MInt32 1)]\<rparr>"
proof -
  let ?p = "\<lparr>payloadStreamNumber = 1, mediaObjectLength = 1, offsetIntoMediaObject = 0,
             keyframe = True, presentationTime = 0, payloadData = [7 :: byte]\<rparr>"
  let ?s1 = "example_state2\<lparr>mDataPacketData := Some (overlay [1, 1, 0, 7] [Some 0, Some 0, Some 0, Some 0]),
              mDataPacketCurrentOffset := mDataPacketCurrentOffset example_state2 + mDataPacketSize example_state2,
              mParser := False\<rparr>"
  let ?b = "wholeBuffer (length (heap ?s1)) ?p"
  let ?s2 = "upd_track 0 (\<lambda>tr. tr\<lparr>bufferQueue := bufferQueue tr @ [?b]\<rparr>)
             (?s1\<lparr>heap := heap ?s1 @
                [map Some (payloadBytes ?p) @ replicate (allocSize ?p - length (payloadBytes ?p)) None]\<rparr>)"
  have d: "mDataPacketData example_state2 = Some [Some 0, Some 0, Some 0, Some 0]"
    by (simp add: example_state2_def)
  have x: "\<not> mDataPacketEndOffset example_state2 <s
             mDataPacketCurrentOffset example_state2 + mDataPacketSize example_state2"
    by (simp add: example_state2_def example_state_def word_sless_alt)
  have ra: "readAt (example_env False) (mDataPacketCurrentOffset example_state2)
              (unat (mDataPacketSize example_state2))
            = (sint (mDataPacketSize example_state2), [1, 1, 0, 7])"
    by (simp add: example_state2_def example_state_def example_packet2)
  have pa: "parseDataPacket (example_env False) [1, 1, 0, 7] (mParser example_state2) = (Some [?p], False)"
    by (simp add: example_env_def example_decode_def example_state2_def example_state_def)
  have h1: "getTrackByStreamNumber ?s1 (int (payloadStreamNumber ?p)) = Some 0"
    by (simp add: getTrackByStreamNumber_def example_state2_def example_state_def example_track_def)
  have h2: "\<not> skipTrack (tracks ?s1 ! 0)"
    by (simp add: example_state2_def example_state_def example_track_def)
  have h3: "mediaObjectLength ?p = payloadSize ?p" by (simp add: payloadSize_def)
  have h4: "unat (mediaObjectLength ?p) \<le> 2 ^ 31 - 4096" by simp
  have h5: "new_ok (example_env False) (allocSize ?p)" by (simp add: example_env_def)
  have pp: "processPayload (example_env False) ?p ?s1 = Ret (OK, ?s2)"
    by (rule processPayload_whole[OF h1 h2 h3 h4 h5])
  from readPacket_payloads[OF d x ra pa] pp
  have rp: "readPacket (example_env False) example_state2 = Ret (OK, ?s2)" by simp
  have q0: "bufferQueue (tracks example_state2 ! 0) = []"
    by (simp add: example_state2_def example_state_def example_track_def)
  have q2: "bufferQueue (tracks ?s2 ! 0) = [?b]"
    by (simp add: upd_track_def example_state2_def example_state_def example_track_def)
  have t: "getTrackByTrackIndex example_state2 0 = Some 0"
    by (simp add: getTrackByTrackIndex_def example_state2_def example_state_def)
  have av: "allocSize ?p = 4096" by (simp add: allocSize_def bufferSize_def)
  have bv: "?b = \<lparr>mb_data = 0, mb_size = 4096, range_offset = 0, range_length = 1,
               meta_data = [(kKeyTime, MInt64 0), (kKeyIsSyncFrame, MInt32 1)]\<rparr>"
    unfolding wholeBuffer_def av by (simp add: stamp_def example_state2_def example_state_def)
  have "read (Suc (Suc 0)) (example_env False) 0 None example_state2
          = Some (Ret (OK, Some ?b, upd_track 0 (\<lambda>tr. tr\<lparr>bufferQueue := []\<rparr>) ?s2))"
    using t q0 rp q2 by (simp add: read_def)
  then show ?thesis unfolding bv by (simp add: status_of_def buffer_of_def)
qed

text \<open>
  Claim C3, as the code has it. When the parser rejects a packet, \<^verbatim>\<open>readPacket\<close> has
  already moved the cursor past it and returns \<open>ERROR_END_OF_STREAM\<close>; the loop of
  \<^verbatim>\<open>read_l\<close> runs only while the status is \<open>OK\<close>, so the pull call ends there and
  returns that status with no buffer. The packet is not read again: the next pull call
  starts at the packet after it.
\<close>

theorem malformed_packet_ends_read:
  assumes "bufferQueue (tracks s ! t) = []"
      and "mDataPacketData s = Some packetData"
      and "\<not> mDataPacketEndOffset s <s mDataPacketCurrentOffset s + mDataPacketSize s"
      and "readAt env (mDataPacketCurrentOffset s) (unat (mDataPacketSize s)) = (sint (mDataPacketSize s), bytes)"
      and "parseDataPacket env bytes (mParser s) = (None, p')"
  shows "readPacket env s =
           Ret (ERROR_END_OF_STREAM,
                s\<lparr>mDataPacketData := Some (overlay bytes packetData),
                  mDataPacketCurrentOffset := mDataPacketCurrentOffset s + mDataPacketSize s,
                  mParser := p'\<rparr>)
       \<and> read_l (Suc fuel) env t s =
           Some (Ret (ERROR_END_OF_STREAM, None,
                s\<lparr>mDataPacketData := Some (overlay bytes packetData),
                  mDataPacketCurrentOffset := mDataPacketCurrentOffset s + mDataPacketSize s,
                  mParser := p'\<rparr>))"
proof -
  have r: "readPacket env s =
           Ret (ERROR_END_OF_STREAM,
                s\<lparr>mDataPacketData := Some (overlay bytes packetData),
                  mDataPacketCurrentOffset := mDataPacketCurrentOffset s + mDataPacketSize s,
                  mParser := p'\<rparr>)"
    using assms(2-5) by (simp add: readPacket_def Let_def)
  then show ?thesis using assms(1) by simp
qed

theorem malformed_packet_ends_read_witness:
  "read_l (Suc 0) (example_env False) 0 (example_state False False) =
     Some (Ret (ERROR_END_OF_STREAM, None,
       example_state False False\<lparr>mDataPacketData := Some (overlay [0, 0, 0, 0] (replicate 4 None)),
         mDataPacketCurrentOffset := mDataPacketCurrentOffset (example_state False False)
            + mDataPacketSize (example_state False False),
         mParser := False\<rparr>))"
proof -
  have h1: "bufferQueue (tracks (example_state False False) ! 0) = []"
    by (simp add: example_state_def example_track_def)
  have h2: "mDataPacketData (example_state False False) = Some (replicate 4 None)"
    by (simp add: example_state_def)
  from malformed_packet_ends_read[OF h1 h2 example_crossing example_read1 example_parse1]
  show ?thesis by simp
qed

text \<open>
  Claim C3 as stated fails: in the small container the first packet is malformed and the
  second holds an object of the first track. The pull call on that track ends with
  \<open>ERROR_END_OF_STREAM\<close> and no buffer; it is the next pull call that returns the
  object of the second packet.
\<close>

theorem malformed_packet_counterexample:
  "read (Suc (Suc 0)) (example_env False) 0 None (example_state False False)
     = Some (Ret (ERROR_END_OF_STREAM, None, example_state2))
   \<and> status_of (read (Suc (Suc 0)) (example_env False) 0 None example_state2) = Some OK
   \<and> buffer_of (read (Suc (Suc 0)) (example_env False) 0 None example_state2)
       = Some \<lparr>mb_data = 0, mb_size = 4096, range_offset = 0, range_length = 1,
               meta_data = [(kKeyTime, MInt64 0), (kKeyIsSyncFrame, MInt32 1)]\<rparr>"
  using example_first_read example_second_read by simp

text \<open>
  Claim C5, as the code has it. On an extractor whose packet buffer is allocated: when
  \<open>cursor + packetSize\<close> is beyond the end of the packet region, or the read does not
  return one packet size, \<^verbatim>\<open>readPacket\<close> returns \<open>ERROR_END_OF_STREAM\<close> and the cursor is
  where it was; otherwise the cursor is one packet size further in the extractor that
  the payload loop starts from, and in every extractor the call returns. So a call
  leaves begin, end and packet size alone, moves the cursor by nothing or by one packet
  size, and keeps \<open>begin \<le> cursor \<le> end\<close> when it held before (for a packet size that is
  not negative and a sum \<open>cursor + packetSize\<close> that an \<^verbatim>\<open>int64_t\<close> holds; C++ leaves the
  sum undefined otherwise). The call keeps the bound; it does not make it.
\<close>

theorem readPacket_cursor:
  assumes "mDataPacketData s = Some packetData"
  shows "(mDataPacketEndOffset s <s mDataPacketCurrentOffset s + mDataPacketSize s
          \<or> fst (readAt env (mDataPacketCurrentOffset s) (unat (mDataPacketSize s))) \<noteq> sint (mDataPacketSize s)
        \<longrightarrow> (\<exists>s'. readPacket env s = Ret (ERROR_END_OF_STREAM, s')
                \<and> mDataPacketCurrentOffset s' = mDataPacketCurrentOffset s))
     \<and> (\<not> mDataPacketEndOffset s <s mDataPacketCurrentOffset s + mDataPacketSize s
          \<and> fst (readAt env (mDataPacketCurrentOffset s) (unat (mDataPacketSize s))) = sint (mDataPacketSize s)
        \<longrightarrow> (\<exists>s1. mDataPacketCurrentOffset s1 = mDataPacketCurrentOffset s + mDataPacketSize s
                \<and> (case fst (parseDataPacket env
                               (snd (readAt env (mDataPacketCurrentOffset s) (unat (mDataPacketSize s))))
                               (mParser s)) of
                      None \<Rightarrow> readPacket env s = Ret (ERROR_END_OF_STREAM, s1)
                    | Some [] \<Rightarrow> readPacket env s = Ret (ERROR_END_OF_STREAM, s1)
                    | Some (p # ps) \<Rightarrow> readPacket env s = processPayloads env (p # ps) s1))
          \<and> (\<forall>st s'. readPacket env s = Ret (st, s') \<longrightarrow>
                mDataPacketCurrentOffset s' = mDataPacketCurrentOffset s + mDataPacketSize s))
     \<and> (\<forall>st s'. readPacket env s = Ret (st, s') \<longrightarrow>
            mDataPacketBeginOffset s' = mDataPacketBeginOffset s
          \<and> mDataPacketEndOffset s' = mDataPacketEndOffset s
          \<and> mDataPacketSize s' = mDataPacketSize s
          \<and> (mDataPacketCurrentOffset s' = mDataPacketCurrentOffset s
              \<or> mDataPacketCurrentOffset s' = mDataPacketCurrentOffset s + mDataPacketSize s)
          \<and> (mDataPacketBeginOffset s \<le>s mDataPacketCurrentOffset s
              \<and> mDataPacketCurrentOffset s \<le>s mDataPacketEndOffset s
              \<and> 0 \<le>s mDataPacketSize s
              \<and> sint (mDataPacketCurrentOffset s) + sint (mDataPacketSize s) < 2 ^ 63
             \<longrightarrow> mDataPacketBeginOffset s' \<le>s mDataPacketCurrentOffset s'
               \<and> mDataPacketCurrentOffset s' \<le>s mDataPacketEndOffset s'))"
  (is "?A \<and> ?B \<and> ?C")
proof -
  let ?c = "mDataPacketCurrentOffset s" and ?z = "mDataPacketSize s"
  let ?e = "mDataPacketEndOffset s" and ?b = "mDataPacketBeginOffset s"
  let ?ra = "readAt env ?c (unat ?z)"
  have A: ?A
  proof (cases "?e <s ?c + ?z")
    case True
    from readPacket_end[OF True, of env] show ?thesis by simp
  next
    case False
    show ?thesis
    proof (cases "fst ?ra = sint ?z")
      case True with False show ?thesis by simp
    next
      case ne: False
      from readPacket_short[OF assms False ne] show ?thesis by simp
    qed
  qed
  have B: ?B
  proof (intro impI, elim conjE)
    assume nc: "\<not> ?e <s ?c + ?z" and ok: "fst ?ra = sint ?z"
    then have ra': "?ra = (sint ?z, snd ?ra)" by (cases ?ra) simp
    obtain res p' where pa: "parseDataPacket env (snd ?ra) (mParser s) = (res, p')"
      by (cases "parseDataPacket env (snd ?ra) (mParser s)")
    let ?s1 = "s\<lparr>mDataPacketData := Some (overlay (snd ?ra) packetData),
                  mDataPacketCurrentOffset := ?c + ?z, mParser := p'\<rparr>"
    have c1: "mDataPacketCurrentOffset ?s1 = ?c + ?z" by simp
    have c2: "case fst (parseDataPacket env (snd ?ra) (mParser s)) of
                      None \<Rightarrow> readPacket env s = Ret (ERROR_END_OF_STREAM, ?s1)
                    | Some [] \<Rightarrow> readPacket env s = Ret (ERROR_END_OF_STREAM, ?s1)
                    | Some (p # ps) \<Rightarrow> readPacket env s = processPayloads env (p # ps) ?s1"
    proof (cases res)
      case None
      with pa readPacket_parse_fail[OF assms nc ra', of p'] show ?thesis by simp
    next
      case (Some pl)
      show ?thesis
      proof (cases pl)
        case Nil
        with Some pa readPacket_parse_fail[OF assms nc ra', of p'] show ?thesis by simp
      next
        case (Cons q qs)
        with Some pa have "parseDataPacket env (snd ?ra) (mParser s) = (Some (q # qs), p')" by simp
        from readPacket_payloads[OF assms nc ra' this] Cons Some pa show ?thesis by simp
      qed
    qed
    have c3: "\<forall>st s'. readPacket env s = Ret (st, s') \<longrightarrow> mDataPacketCurrentOffset s' = ?c + ?z"
    proof (intro allI impI)
      fix st s' assume r: "readPacket env s = Ret (st, s')"
      have "region s' = region ?s1"
      proof (cases res)
        case None
        with pa readPacket_parse_fail[OF assms nc ra', of p'] r show ?thesis by simp
      next
        case (Some pl)
        show ?thesis
        proof (cases pl)
          case Nil
          with Some pa readPacket_parse_fail[OF assms nc ra', of p'] r show ?thesis by simp
        next
          case (Cons q qs)
          with Some pa have "parseDataPacket env (snd ?ra) (mParser s) = (Some (q # qs), p')" by simp
          from readPacket_payloads[OF assms nc ra' this] r
          have "processPayloads env (q # qs) ?s1 = Ret (st, s')" by simp
          then show ?thesis by (rule processPayloads_region)
        qed
      qed
      then show "mDataPacketCurrentOffset s' = ?c + ?z" by (simp add: region_def)
    qed
    from c1 c2 c3 show "(\<exists>s1. mDataPacketCurrentOffset s1 = ?c + ?z
                \<and> (case fst (parseDataPacket env (snd ?ra) (mParser s)) of
                      None \<Rightarrow> readPacket env s = Ret (ERROR_END_OF_STREAM, s1)
                    | Some [] \<Rightarrow> readPacket env s = Ret (ERROR_END_OF_STREAM, s1)
                    | Some (p # ps) \<Rightarrow> readPacket env s = processPayloads env (p # ps) s1))
          \<and> (\<forall>st s'. readPacket env s = Ret (st, s') \<longrightarrow> mDataPacketCurrentOffset s' = ?c + ?z)"
      by blast
  qed
  have C: ?C
  proof (intro allI impI)
    fix st s' assume r: "readPacket env s = Ret (st, s')"
    from readPacket_region[OF assms r]
    consider (same) "region s' = region s"
      | (adv) "\<not> ?e <s ?c + ?z" "region s' = (?b, ?e, ?c + ?z, ?z)" by blast
    then show "mDataPacketBeginOffset s' = ?b \<and> mDataPacketEndOffset s' = ?e
          \<and> mDataPacketSize s' = ?z
          \<and> (mDataPacketCurrentOffset s' = ?c \<or> mDataPacketCurrentOffset s' = ?c + ?z)
          \<and> (?b \<le>s ?c \<and> ?c \<le>s ?e \<and> 0 \<le>s ?z \<and> sint ?c + sint ?z < 2 ^ 63
             \<longrightarrow> mDataPacketBeginOffset s' \<le>s mDataPacketCurrentOffset s'
               \<and> mDataPacketCurrentOffset s' \<le>s mDataPacketEndOffset s')"
    proof cases
      case same then show ?thesis by (simp add: region_def)
    next
      case adv
      have inv: "?b \<le>s ?c + ?z \<and> ?c + ?z \<le>s ?e"
        if h: "?b \<le>s ?c" "0 \<le>s ?z" "sint ?c + sint ?z < 2 ^ 63"
      proof -
        from h(2) have z0: "0 \<le> sint ?z" by (simp add: word_sle_eq)
        from sint_add_no_overflow[OF z0 h(3)] have eq: "sint (?c + ?z) = sint ?c + sint ?z" .
        from h(1) have "sint ?b \<le> sint ?c" by (simp add: word_sle_eq)
        with z0 eq have 1: "?b \<le>s ?c + ?z" by (simp add: word_sle_eq)
        from adv(1) have 2: "?c + ?z \<le>s ?e" by (simp add: word_sle_eq word_sless_alt)
        from 1 2 show ?thesis by simp
      qed
      from adv(2) inv show ?thesis by (simp add: region_def)
    qed
  qed
  from A B C show ?thesis by (intro conjI)
qed

theorem readPacket_cursor_witness:
  "(\<exists>s'. readPacket (example_env False)
            (example_state False False\<lparr>mDataPacketCurrentOffset := 82\<rparr>) = Ret (ERROR_END_OF_STREAM, s')
        \<and> mDataPacketCurrentOffset s' = 82)
   \<and> readPacket (example_env False) (example_state False False) = Ret (ERROR_END_OF_STREAM, example_state2)
   \<and> mDataPacketCurrentOffset example_state2 = 78
   \<and> mDataPacketBeginOffset example_state2 \<le>s mDataPacketCurrentOffset example_state2
   \<and> mDataPacketCurrentOffset example_state2 \<le>s mDataPacketEndOffset example_state2"
proof -
  have d1: "mDataPacketData (example_state False False\<lparr>mDataPacketCurrentOffset := 82\<rparr>) = Some (replicate 4 None)"
    by (simp add: example_state_def)
  have d2: "mDataPacketData (example_state False False) = Some (replicate 4 None)"
    by (simp add: example_state_def)
  have x: "mDataPacketEndOffset (example_state False False\<lparr>mDataPacketCurrentOffset := 82\<rparr>) <s
      mDataPacketCurrentOffset (example_state False False\<lparr>mDataPacketCurrentOffset := 82\<rparr>)
      + mDataPacketSize (example_state False False\<lparr>mDataPacketCurrentOffset := 82\<rparr>)"
    by (simp add: example_state_def word_sless_alt)
  have a: "\<exists>s'. readPacket (example_env False)
            (example_state False False\<lparr>mDataPacketCurrentOffset := 82\<rparr>) = Ret (ERROR_END_OF_STREAM, s')
        \<and> mDataPacketCurrentOffset s' = 82"
    using readPacket_cursor[OF d1, of "example_env False"] x by simp
  have ok: "fst (readAt (example_env False) (mDataPacketCurrentOffset (example_state False False))
      (unat (mDataPacketSize (example_state False False)))) = sint (mDataPacketSize (example_state False False))"
    by (simp add: example_read1)
  have inv: "mDataPacketBeginOffset (example_state False False) \<le>s mDataPacketCurrentOffset (example_state False False)
      \<and> mDataPacketCurrentOffset (example_state False False) \<le>s mDataPacketEndOffset (example_state False False)
      \<and> 0 \<le>s mDataPacketSize (example_state False False)
      \<and> sint (mDataPacketCurrentOffset (example_state False False))
          + sint (mDataPacketSize (example_state False False)) < 2 ^ 63"
    by (simp add: example_state_def word_sle_eq)
  have v: "mDataPacketCurrentOffset (example_state False False) + mDataPacketSize (example_state False False) = 78"
    by (simp add: example_state_def)
  have b: "mDataPacketCurrentOffset example_state2 = 78
       \<and> mDataPacketBeginOffset example_state2 \<le>s mDataPacketCurrentOffset example_state2
       \<and> mDataPacketCurrentOffset example_state2 \<le>s mDataPacketEndOffset example_state2"
    using readPacket_cursor[OF d2, of "example_env False"] example_crossing[of False False] ok inv
      example_readPacket1
    unfolding v by blast
  from a b example_readPacket1 show ?thesis by blast
qed

text \<open>
  Claim C5 as stated fails: \<open>cursor \<le> end\<close> does not always hold. \<^verbatim>\<open>seek_l\<close> sets the cursor
  to \<open>begin + packetNumber * packetSize\<close> and never compares it with the end of the
  region. With an index that names packet 3 of the small container, which has two
  packets, the seek returns \<open>OK\<close> with the cursor at 86, beyond the end 82; \<^verbatim>\<open>readPacket\<close>
  then reports the end of the stream and leaves the cursor there.
\<close>

theorem cursor_beyond_end_counterexample:
  "fst (seek_l example_env_far 0 \<lparr>getSeekTo = Some (1, SEEK_CLOSEST_SYNC), getLateBy = 0\<rparr>
          (example_state False True)) = OK
   \<and> region (snd (seek_l example_env_far 0 \<lparr>getSeekTo = Some (1, SEEK_CLOSEST_SYNC), getLateBy = 0\<rparr>
          (example_state False True))) = (74, 82, 86, 4)
   \<and> \<not> mDataPacketCurrentOffset (snd (seek_l example_env_far 0
            \<lparr>getSeekTo = Some (1, SEEK_CLOSEST_SYNC), getLateBy = 0\<rparr> (example_state False True)))
        \<le>s mDataPacketEndOffset (snd (seek_l example_env_far 0
            \<lparr>getSeekTo = Some (1, SEEK_CLOSEST_SYNC), getLateBy = 0\<rparr> (example_state False True)))
   \<and> readPacket example_env_far
        (snd (seek_l example_env_far 0 \<lparr>getSeekTo = Some (1, SEEK_CLOSEST_SYNC), getLateBy = 0\<rparr>
          (example_state False True)))
      = Ret (ERROR_END_OF_STREAM,
          snd (seek_l example_env_far 0 \<lparr>getSeekTo = Some (1, SEEK_CLOSEST_SYNC), getLateBy = 0\<rparr>
            (example_state False True)))"
proof -
  let ?r = "seek_l example_env_far 0 \<lparr>getSeekTo = Some (1, SEEK_CLOSEST_SYNC), getLateBy = 0\<rparr>
          (example_state False True)"
  have sk: "?r = (OK, (example_state False True)\<lparr>mParser := True, mDataPacketCurrentOffset := 86,
                 tracks := flushTracks 0 0 (tracks (example_state False True))\<rparr>)"
    by (simp add: seek_l_def example_env_far_def example_env_def example_state_def example_track_def
          SCALE_100_NANOSEC_TO_USEC_def)
  have a: "fst ?r = OK" unfolding sk by simp
  have b: "region (snd ?r) = (74, 82, 86, 4)" unfolding sk by (simp add: region_def example_state_def)
  have c: "\<not> mDataPacketCurrentOffset (snd ?r) \<le>s mDataPacketEndOffset (snd ?r)"
    unfolding sk by (simp add: example_state_def word_sle_eq)
  have x: "mDataPacketEndOffset (snd ?r) <s mDataPacketCurrentOffset (snd ?r) + mDataPacketSize (snd ?r)"
    unfolding sk by (simp add: example_state_def word_sless_alt)
  have d: "readPacket example_env_far (snd ?r) = Ret (ERROR_END_OF_STREAM, snd ?r)"
    by (rule readPacket_end[OF x])
  from a b c d show ?thesis by (intro conjI)
qed



subsection \<open>The tracks along a run\<close>










text \<open>What one payload can do to the tracks and the store.\<close>

lemma processPayload_shape:
  assumes r: "processPayload env p s = Ret (st, s')"
  shows "(tracks s' = tracks s \<and> heap s' = heap s)
       \<or> (\<exists>j tr'. getTrackByStreamNumber s (int (payloadStreamNumber p)) = Some j
            \<and> tracks s' = (tracks s)[j := tr'] \<and> statics tr' = statics (tracks s ! j)
            \<and> ((\<exists>d. heap s' = heap s @ [d])
                \<and> (bufferActive tr' = bufferActive (tracks s ! j)
                   \<or> (\<exists>b. bufferActive tr' = Some b \<and> mb_data b = length (heap s)))
              \<or> (\<exists>b d. bufferActive (tracks s ! j) = Some b \<and> heap s' = (heap s)[mb_data b := d])
                \<and> (bufferActive tr' = bufferActive (tracks s ! j) \<or> bufferActive tr' = None)))"
proof (cases "getTrackByStreamNumber s (int (payloadStreamNumber p))")
  case None
  with r show ?thesis by (simp add: processPayload_def)
next
  case (Some j)
  let ?tr = "tracks s ! j"
  show ?thesis
  proof (cases "skipTrack ?tr")
    case True
    with r Some show ?thesis by (simp add: processPayload_def Let_def)
  next
    case ns: False
    show ?thesis
    proof (cases "mediaObjectLength p = payloadSize p \<or> offsetIntoMediaObject p = 0")
      case first: True
      show ?thesis
      proof (cases "new_ok env (allocSize p)")
        case False
        with r Some ns first show ?thesis by (simp add: processPayload_def Let_def)
      next
        case ok: True
        show ?thesis
        proof (cases "memcpy (replicate (allocSize p) None) 0 (payloadBytes p)")
          case None
          with r Some ns first ok show ?thesis by (simp add: processPayload_def Let_def)
        next
          case (Some d)
          let ?b = "\<lparr>mb_data = length (heap s), mb_size = allocSize p,
                                range_offset = 0, range_length = unat (mediaObjectLength p),
                                meta_data = stamp p\<rparr>"
          consider (whole) "mediaObjectLength p = payloadSize p"
            | (enc) "mediaObjectLength p \<noteq> payloadSize p" "encrypted ?tr"
            | (plain) "mediaObjectLength p \<noteq> payloadSize p" "\<not> encrypted ?tr" by blast
          then obtain tr' where t: "tracks s' = (tracks s)[j := tr']" "heap s' = heap s @ [d]"
            "statics tr' = statics ?tr"
            "bufferActive tr' = bufferActive ?tr \<or> bufferActive tr' = Some ?b"
          proof cases
            case whole
            with r \<open>getTrackByStreamNumber s (int (payloadStreamNumber p)) = Some j\<close> ns first ok Some
            have "s' = upd_track j (\<lambda>tr. tr\<lparr>bufferQueue := bufferQueue tr @ [?b]\<rparr>) (s\<lparr>heap := heap s @ [d]\<rparr>)"
              by (simp add: processPayload_def Let_def)
            then show ?thesis by (intro that[of "?tr\<lparr>bufferQueue := bufferQueue ?tr @ [?b]\<rparr>"])
                (simp_all add: upd_track_def statics_def)
          next
            case enc
            with r \<open>getTrackByStreamNumber s (int (payloadStreamNumber p)) = Some j\<close> ns first ok Some
            have "s' = upd_track j (\<lambda>tr. tr\<lparr>bufferActive := Some ?b,
                                   bufferQueue := bufferQueue tr
                                     @ [set_range 0 (unat (payloadSize p)) (clone ?b)]\<rparr>) (s\<lparr>heap := heap s @ [d]\<rparr>)"
              by (simp add: processPayload_def Let_def)
            then show ?thesis
              by (intro that[of "?tr\<lparr>bufferActive := Some ?b,
                                   bufferQueue := bufferQueue ?tr
                                     @ [set_range 0 (unat (payloadSize p)) (clone ?b)]\<rparr>"])
                (simp_all add: upd_track_def statics_def)
          next
            case plain
            with r \<open>getTrackByStreamNumber s (int (payloadStreamNumber p)) = Some j\<close> ns first ok Some
            have "s' = upd_track j (\<lambda>tr. tr\<lparr>bufferActive := Some ?b\<rparr>) (s\<lparr>heap := heap s @ [d]\<rparr>)"
              by (simp add: processPayload_def Let_def)
            then show ?thesis by (intro that[of "?tr\<lparr>bufferActive := Some ?b\<rparr>"])
                (simp_all add: upd_track_def statics_def)
          qed
          from t(4) have "bufferActive tr' = bufferActive ?tr
                   \<or> (\<exists>b. bufferActive tr' = Some b \<and> mb_data b = length (heap s))" by auto
          with t(1,2,3) \<open>getTrackByStreamNumber s (int (payloadStreamNumber p)) = Some j\<close>
          show ?thesis by blast
        qed
      qed
    next
      case later: False
      show ?thesis
      proof (cases "bufferActive ?tr")
        case None
        with r Some ns later show ?thesis by (simp add: processPayload_def Let_def)
      next
        case act: (Some active)
        show ?thesis
        proof (cases "memcpy (heap s ! mb_data active) (unat (offsetIntoMediaObject p)) (payloadBytes p)")
          case None
          with r Some ns later act show ?thesis by (simp add: processPayload_def Let_def)
        next
          case (Some d)
          let ?h = "(heap s)[mb_data active := d]"
          let ?last = "offsetIntoMediaObject p + payloadSize p = mediaObjectLength p"
          consider (lastplain) "?last" "\<not> encrypted ?tr" | (lastenc) "?last" "encrypted ?tr"
            | (midenc) "\<not> ?last" "encrypted ?tr" | (midplain) "\<not> ?last" "\<not> encrypted ?tr" by blast
          then obtain tr' where t: "tracks s' = (tracks s)[j := tr']" "heap s' = ?h"
            "statics tr' = statics ?tr"
            "bufferActive tr' = bufferActive ?tr \<or> bufferActive tr' = None"
          proof cases
            case lastplain
            with r \<open>getTrackByStreamNumber s (int (payloadStreamNumber p)) = Some j\<close> ns later act Some
            have "s' = upd_track j (\<lambda>tr. tr\<lparr>bufferQueue := bufferQueue tr @ [active],
                                        bufferActive := None\<rparr>) (s\<lparr>heap := ?h\<rparr>)"
              by (simp add: processPayload_def Let_def)
            then show ?thesis
              by (intro that[of "?tr\<lparr>bufferQueue := bufferQueue ?tr @ [active], bufferActive := None\<rparr>"])
                (simp_all add: upd_track_def statics_def)
          next
            case lastenc
            with r \<open>getTrackByStreamNumber s (int (payloadStreamNumber p)) = Some j\<close> ns later act Some
            have "s' = upd_track j (\<lambda>tr. tr\<lparr>bufferQueue := bufferQueue tr
                                          @ [set_range (unat (offsetIntoMediaObject p))
                                               (unat (payloadSize p)) active],
                                        bufferActive := None\<rparr>) (s\<lparr>heap := ?h\<rparr>)"
              by (simp add: processPayload_def Let_def)
            then show ?thesis
              by (intro that[of "?tr\<lparr>bufferQueue := bufferQueue ?tr
                                          @ [set_range (unat (offsetIntoMediaObject p))
                                               (unat (payloadSize p)) active],
                                        bufferActive := None\<rparr>"])
                (simp_all add: upd_track_def statics_def)
          next
            case midenc
            with r \<open>getTrackByStreamNumber s (int (payloadStreamNumber p)) = Some j\<close> ns later act Some
            have "s' = upd_track j (\<lambda>tr. tr\<lparr>bufferQueue := bufferQueue tr
                                        @ [set_range (unat (offsetIntoMediaObject p))
                                             (unat (payloadSize p)) (clone active)]\<rparr>) (s\<lparr>heap := ?h\<rparr>)"
              by (simp add: processPayload_def Let_def)
            then show ?thesis
              by (intro that[of "?tr\<lparr>bufferQueue := bufferQueue ?tr
                                        @ [set_range (unat (offsetIntoMediaObject p))
                                             (unat (payloadSize p)) (clone active)]\<rparr>"])
                (simp_all add: upd_track_def statics_def)
          next
            case midplain
            with r \<open>getTrackByStreamNumber s (int (payloadStreamNumber p)) = Some j\<close> ns later act Some
            have "s' = s\<lparr>heap := ?h\<rparr>"
              by (simp add: processPayload_def Let_def)
            then show ?thesis by (intro that[of "?tr"]) simp_all
          qed
          from t act \<open>getTrackByStreamNumber s (int (payloadStreamNumber p)) = Some j\<close>
          show ?thesis by blast
        qed
      qed
    qed
  qed
qed

lemma store_ok_nth:
  "store_ok s = (\<forall>j < length (tracks s).
       case bufferActive (tracks s ! j) of None \<Rightarrow> True | Some b \<Rightarrow> mb_data b < length (heap s))"
  by (simp add: store_ok_def list_all_length)

text \<open>A payload of another track leaves the track at position \<open>i\<close> and its allocation alone.\<close>

lemma processPayload_frame:
  assumes r: "processPayload env p s = Ret (st, s')"
      and o: "getTrackByStreamNumber s (int (payloadStreamNumber p)) \<noteq> Some i"
  shows "length (tracks s') = length (tracks s)"
    and "map statics (tracks s') = map statics (tracks s)"
    and "tracks s' ! i = tracks s ! i"
    and "store_ok s \<Longrightarrow> store_ok s'"
    and "a < length (heap s) \<Longrightarrow> others_clear s i a \<Longrightarrow>
           a < length (heap s') \<and> heap s' ! a = heap s ! a \<and> others_clear s' i a"
proof -
  from processPayload_shape[OF r]
  consider (same) "tracks s' = tracks s" "heap s' = heap s"
    | (upd) j tr' where "getTrackByStreamNumber s (int (payloadStreamNumber p)) = Some j"
        "tracks s' = (tracks s)[j := tr']" "statics tr' = statics (tracks s ! j)"
        "((\<exists>d. heap s' = heap s @ [d])
                \<and> (bufferActive tr' = bufferActive (tracks s ! j)
                   \<or> (\<exists>b. bufferActive tr' = Some b \<and> mb_data b = length (heap s)))
              \<or> (\<exists>b d. bufferActive (tracks s ! j) = Some b \<and> heap s' = (heap s)[mb_data b := d])
                \<and> (bufferActive tr' = bufferActive (tracks s ! j) \<or> bufferActive tr' = None))"
    by blast
  then have "length (tracks s') = length (tracks s)
     \<and> map statics (tracks s') = map statics (tracks s)
     \<and> tracks s' ! i = tracks s ! i
     \<and> (store_ok s \<longrightarrow> store_ok s')
     \<and> (a < length (heap s) \<longrightarrow> others_clear s i a \<longrightarrow>
           a < length (heap s') \<and> heap s' ! a = heap s ! a \<and> others_clear s' i a)"
  proof cases
    case same
    show ?thesis unfolding store_ok_def others_clear_def same by simp
  next
    case (upd j tr')
    from getTrackByStreamNumber_bound[OF upd(1)] have j: "j < length (tracks s)" .
    from upd(1) o have ji: "j \<noteq> i" by auto
    have l: "length (tracks s') = length (tracks s)" using upd(2) by simp
    have m: "map statics (tracks s') = map statics (tracks s)"
    proof -
      have "map statics (tracks s') = (map statics (tracks s))[j := statics (tracks s ! j)]"
        using upd(2,3) by (simp add: map_update)
      also have "\<dots> = map statics (tracks s)"
        using j by (metis list_update_id nth_map)
      finally show ?thesis .
    qed
    have n: "tracks s' ! i = tracks s ! i" using upd(2) ji by simp
    have nth: "tracks s' ! k = (if k = j then tr' else tracks s ! k)" if "k < length (tracks s)" for k
      using upd(2) that by (simp add: nth_list_update)
    from upd(4) consider
        (app) d where "heap s' = heap s @ [d]"
          "bufferActive tr' = bufferActive (tracks s ! j)
                   \<or> (\<exists>b. bufferActive tr' = Some b \<and> mb_data b = length (heap s))"
      | (cpy) b d where "bufferActive (tracks s ! j) = Some b" "heap s' = (heap s)[mb_data b := d]"
          "bufferActive tr' = bufferActive (tracks s ! j) \<or> bufferActive tr' = None"
      by blast
    then have so_oc: "(store_ok s \<longrightarrow> store_ok s')
      \<and> (a < length (heap s) \<longrightarrow> others_clear s i a \<longrightarrow>
           a < length (heap s') \<and> heap s' ! a = heap s ! a \<and> others_clear s' i a)"
    proof cases
      case app
      {
        assume ok: "store_ok s"
        have "store_ok s'"
          unfolding store_ok_nth
        proof (intro allI impI)
          fix k assume k: "k < length (tracks s')"
          with l have k': "k < length (tracks s)" by simp
          from ok k' have old: "case bufferActive (tracks s ! k) of None \<Rightarrow> True
                 | Some b \<Rightarrow> mb_data b < length (heap s)" by (simp add: store_ok_nth)
          show "case bufferActive (tracks s' ! k) of None \<Rightarrow> True
                 | Some b \<Rightarrow> mb_data b < length (heap s')"
          proof (cases "k = j")
            case True
            with app old nth[OF k'] show ?thesis by (auto split: option.splits)
          next
            case False
            with app(1) old nth[OF k'] show ?thesis by (auto split: option.splits)
          qed
        qed
      }
      then have p1: "store_ok s \<longrightarrow> store_ok s'" by blast
      {
        assume a: "a < length (heap s)" and c: "others_clear s i a"
        have 1: "a < length (heap s')" using a app(1) by simp
        have 2: "heap s' ! a = heap s ! a" using a app(1) by (simp add: nth_append)
        have 3: "others_clear s' i a"
          unfolding others_clear_def
        proof (intro allI impI)
          fix k assume k: "k < length (tracks s')" and ki: "k \<noteq> i"
          with l have k': "k < length (tracks s)" by simp
          from c k' ki have old: "case bufferActive (tracks s ! k) of None \<Rightarrow> True
                 | Some b \<Rightarrow> mb_data b \<noteq> a" by (simp add: others_clear_def)
          show "case bufferActive (tracks s' ! k) of None \<Rightarrow> True | Some b \<Rightarrow> mb_data b \<noteq> a"
          proof (cases "k = j")
            case True
            with app(2) old nth[OF k'] a show ?thesis by (auto split: option.splits)
          next
            case False
            with old nth[OF k'] show ?thesis by simp
          qed
        qed
        note 1 2 3
      }
      then have p2: "a < length (heap s) \<longrightarrow> others_clear s i a \<longrightarrow>
           a < length (heap s') \<and> heap s' ! a = heap s ! a \<and> others_clear s' i a" by blast
      from p1 p2 show ?thesis by (intro conjI)
    next
      case cpy
      {
        assume ok: "store_ok s"
        have "store_ok s'"
          unfolding store_ok_nth
        proof (intro allI impI)
          fix k assume k: "k < length (tracks s')"
          with l have k': "k < length (tracks s)" by simp
          from ok k' have old: "case bufferActive (tracks s ! k) of None \<Rightarrow> True
                 | Some b \<Rightarrow> mb_data b < length (heap s)" by (simp add: store_ok_nth)
          from ok j have oldj: "case bufferActive (tracks s ! j) of None \<Rightarrow> True
                 | Some b \<Rightarrow> mb_data b < length (heap s)" by (simp add: store_ok_nth)
          show "case bufferActive (tracks s' ! k) of None \<Rightarrow> True
                 | Some b \<Rightarrow> mb_data b < length (heap s')"
          proof (cases "k = j")
            case True
            with cpy oldj nth[OF k'] show ?thesis by (auto split: option.splits)
          next
            case False
            with cpy(2) old nth[OF k'] show ?thesis by (auto split: option.splits)
          qed
        qed
      }
      then have p1: "store_ok s \<longrightarrow> store_ok s'" by blast
      {
        assume a: "a < length (heap s)" and c: "others_clear s i a"
        from c j ji cpy(1) have ne: "mb_data b \<noteq> a" by (auto simp: others_clear_def)
        have 1: "a < length (heap s')" using a cpy(2) by simp
        have 2: "heap s' ! a = heap s ! a" using ne cpy(2) by simp
        have 3: "others_clear s' i a"
          unfolding others_clear_def
        proof (intro allI impI)
          fix k assume k: "k < length (tracks s')" and ki: "k \<noteq> i"
          with l have k': "k < length (tracks s)" by simp
          from c k' ki have old: "case bufferActive (tracks s ! k) of None \<Rightarrow> True
                 | Some b \<Rightarrow> mb_data b \<noteq> a" by (simp add: others_clear_def)
          show "case bufferActive (tracks s' ! k) of None \<Rightarrow> True | Some b \<Rightarrow> mb_data b \<noteq> a"
          proof (cases "k = j")
            case True
            with cpy(1,3) ne nth[OF k'] show ?thesis by (auto split: option.splits)
          next
            case False
            with old nth[OF k'] show ?thesis by simp
          qed
        qed
        note 1 2 3
      }
      then have p2: "a < length (heap s) \<longrightarrow> others_clear s i a \<longrightarrow>
           a < length (heap s') \<and> heap s' ! a = heap s ! a \<and> others_clear s' i a" by blast
      from p1 p2 show ?thesis by (intro conjI)
    qed
    from so_oc have so: "store_ok s \<longrightarrow> store_ok s'"
      and oc: "a < length (heap s) \<longrightarrow> others_clear s i a \<longrightarrow>
           a < length (heap s') \<and> heap s' ! a = heap s ! a \<and> others_clear s' i a" by blast+
    from l m n so oc show ?thesis by (intro conjI)
  qed
  then show "length (tracks s') = length (tracks s)"
    and "map statics (tracks s') = map statics (tracks s)"
    and "tracks s' ! i = tracks s ! i"
    and "store_ok s \<Longrightarrow> store_ok s'"
    and "a < length (heap s) \<Longrightarrow> others_clear s i a \<Longrightarrow>
           a < length (heap s') \<and> heap s' ! a = heap s ! a \<and> others_clear s' i a"
    by blast+
qed

lemma processPayload_statics:
  assumes r: "processPayload env p s = Ret (st, s')"
  shows "length (tracks s') = length (tracks s) \<and> map statics (tracks s') = map statics (tracks s)"
proof -
  have "getTrackByStreamNumber s (int (payloadStreamNumber p)) \<noteq> Some (length (tracks s))"
    using getTrackByStreamNumber_bound[of s "int (payloadStreamNumber p)" "length (tracks s)"] by auto
  from processPayload_frame(1,2)[OF r this] show ?thesis by simp
qed

lemma processPayload_store_ok:
  assumes r: "processPayload env p s = Ret (st, s')" and "store_ok s"
  shows "store_ok s'"
proof -
  have "getTrackByStreamNumber s (int (payloadStreamNumber p)) \<noteq> Some (length (tracks s))"
    using getTrackByStreamNumber_bound[of s "int (payloadStreamNumber p)" "length (tracks s)"] by auto
  from processPayload_frame(4)[OF r this assms(2)] show ?thesis .
qed



















lemma readPacket_run:
  assumes r: "readPacket env s1 = Ret (OK, s2)"
  shows "\<exists>s1'. tracks s1' = tracks s1 \<and> heap s1' = heap s1
           \<and> processPayloads env (packetPayloads env s1) s1' = Ret (OK, s2)"
proof (cases "mDataPacketEndOffset s1 <s mDataPacketCurrentOffset s1 + mDataPacketSize s1")
  case True
  from readPacket_end[OF True, of env] r show ?thesis by simp
next
  case nc: False
  show ?thesis
  proof (cases "mDataPacketData s1")
    case None
    with nc r show ?thesis by (simp add: readPacket_def)
  next
    case (Some packetData)
    obtain ret bytes where ra: "readAt env (mDataPacketCurrentOffset s1) (unat (mDataPacketSize s1)) = (ret, bytes)"
      by (cases "readAt env (mDataPacketCurrentOffset s1) (unat (mDataPacketSize s1))")
    show ?thesis
    proof (cases "ret = sint (mDataPacketSize s1)")
      case False
      with ra have "fst (readAt env (mDataPacketCurrentOffset s1) (unat (mDataPacketSize s1)))
                      \<noteq> sint (mDataPacketSize s1)" by simp
      from readPacket_short[OF Some nc this] r show ?thesis by simp
    next
      case True
      with ra have ra': "readAt env (mDataPacketCurrentOffset s1) (unat (mDataPacketSize s1))
                           = (sint (mDataPacketSize s1), bytes)" by simp
      let ?s1 = "\<lambda>p'. s1\<lparr>mDataPacketData := Some (overlay bytes packetData),
                  mDataPacketCurrentOffset := mDataPacketCurrentOffset s1 + mDataPacketSize s1,
                  mParser := p'\<rparr>"
      obtain res p' where pa: "parseDataPacket env bytes (mParser s1) = (res, p')"
        by (cases "parseDataPacket env bytes (mParser s1)")
      show ?thesis
      proof (cases res)
        case None
        with pa readPacket_parse_fail[OF Some nc ra', of p'] r show ?thesis by simp
      next
        case sm: (Some pl)
        show ?thesis
        proof (cases pl)
          case Nil
          with sm pa readPacket_parse_fail[OF Some nc ra', of p'] r show ?thesis by simp
        next
          case (Cons q qs)
          with sm pa have pa': "parseDataPacket env bytes (mParser s1) = (Some (q # qs), p')" by simp
          from readPacket_payloads[OF Some nc ra' pa'] r
          have 1: "processPayloads env (q # qs) (?s1 p') = Ret (OK, s2)" by simp
          have 2: "packetPayloads env s1 = q # qs" by (simp add: packetPayloads_def ra' pa')
          have 3: "tracks (?s1 p') = tracks s1" "heap (?s1 p') = heap s1" by simp_all
          from 1 2 3 show ?thesis by metis
        qed
      qed
    qed
  qed
qed


lemma demuxed_trans:
  "demuxed env s1 qs' out' s2 \<Longrightarrow> demuxed env s qs out s1 \<Longrightarrow>
     demuxed env s (qs @ qs') (out @ out') s2"
proof (induction rule: demuxed.induct)
  case demuxed_none then show ?case by simp
next
  case (demuxed_packet qs' out' sa sb)
  from demuxed.demuxed_packet[OF demuxed_packet.IH[OF demuxed_packet.prems] demuxed_packet.hyps(2)]
  show ?case by simp
next
  case (demuxed_taken qs' out' sa t b more)
  from demuxed.demuxed_taken[OF demuxed_taken.IH[OF demuxed_taken.prems] demuxed_taken.hyps(2,3)]
  show ?case by simp
qed

lemma processPayloads_length:
  "processPayloads env qs s = Ret (st, s') \<Longrightarrow> length (tracks s') = length (tracks s)"
proof (induction qs arbitrary: s)
  case Nil then show ?case by simp
next
  case (Cons q qs)
  show ?case
  proof (cases "processPayload env q s")
    case Fault with Cons.prems show ?thesis by simp
  next
    case (Ret r)
    obtain st1 s1 where r: "r = (st1, s1)" by (cases r)
    from processPayload_statics[of env q s st1 s1] Ret r
    have 1: "length (tracks s1) = length (tracks s)" by simp
    show ?thesis
    proof (cases "st1 = OK")
      case True
      with Cons.prems Ret r have "processPayloads env qs s1 = Ret (st, s')" by simp
      from Cons.IH[OF this] 1 show ?thesis by simp
    next
      case False
      with Cons.prems Ret r 1 show ?thesis by simp
    qed
  qed
qed

lemma processPayloads_store_ok:
  "processPayloads env qs s = Ret (st, s') \<Longrightarrow> store_ok s \<Longrightarrow> store_ok s'"
proof (induction qs arbitrary: s)
  case Nil then show ?case by simp
next
  case (Cons q qs)
  show ?case
  proof (cases "processPayload env q s")
    case Fault with Cons.prems show ?thesis by simp
  next
    case (Ret r)
    obtain st1 s1 where r: "r = (st1, s1)" by (cases r)
    from processPayload_store_ok[of env q s st1 s1] Ret r Cons.prems(2)
    have 1: "store_ok s1" by simp
    show ?thesis
    proof (cases "st1 = OK")
      case True
      with Cons.prems Ret r have "processPayloads env qs s1 = Ret (st, s')" by simp
      from Cons.IH[OF this 1] show ?thesis .
    next
      case False
      with Cons.prems Ret r 1 show ?thesis by simp
    qed
  qed
qed

text \<open>The runs keep every in-progress buffer inside the store.\<close>

lemma demuxed_store_ok:
  "demuxed env s0 qs out s \<Longrightarrow> store_ok s0 \<Longrightarrow> store_ok s"
proof (induction rule: demuxed.induct)
  case demuxed_none then show ?case by simp
next
  case (demuxed_packet qs out s1 s2)
  from readPacket_run[OF demuxed_packet.hyps(2)] obtain u where
    u: "tracks u = tracks s1" "heap u = heap s1"
    "processPayloads env (packetPayloads env s1) u = Ret (OK, s2)" by blast
  from demuxed_packet.IH[OF demuxed_packet.prems] have "store_ok s1" .
  then have "store_ok u" unfolding store_ok_def u(1,2) .
  from processPayloads_store_ok[OF u(3) this] show ?case .
next
  case (demuxed_taken qs out s1 t b rest)
  from demuxed_taken.IH[OF demuxed_taken.prems] have 1: "store_ok s1" .
  let ?s' = "upd_track t (\<lambda>tr. tr\<lparr>bufferQueue := rest\<rparr>) s1"
  have tr: "tracks ?s' = (tracks s1)[t := (tracks s1 ! t)\<lparr>bufferQueue := rest\<rparr>]"
    and hp: "heap ?s' = heap s1" by (simp_all add: upd_track_def)
  have act: "bufferActive (tracks ?s' ! k) = bufferActive (tracks s1 ! k)" for k
    unfolding tr using demuxed_taken.hyps(2) by (cases "k = t") simp_all
  have "store_ok ?s' = store_ok s1"
    unfolding store_ok_nth hp using act tr by simp
  with 1 show ?case by simp
qed

text \<open>A pull call that returns a buffer is such a run.\<close>

lemma read_l_demuxed:
  "read_l fuel env t s = Some (Ret (OK, Some b, s')) \<Longrightarrow> t < length (tracks s) \<Longrightarrow>
     \<exists>qs. demuxed env s qs [(t, b)] s'"
proof (induction fuel arbitrary: s)
  case 0 then show ?case by simp
next
  case (Suc fuel)
  show ?case
  proof (cases "bufferQueue (tracks s ! t)")
    case (Cons b0 more)
    with Suc.prems(1) have e: "b0 = b" "s' = upd_track t (\<lambda>tr. tr\<lparr>bufferQueue := more\<rparr>) s" by simp_all
    from demuxed.demuxed_taken[OF demuxed.demuxed_none Suc.prems(2) Cons, of env] e
    have "demuxed env s [] [(t, b)] s'" by simp
    then show ?thesis by blast
  next
    case Nil
    show ?thesis
    proof (cases "readPacket env s")
      case Fault with Nil Suc.prems(1) show ?thesis by simp
    next
      case (Ret r)
      obtain err s1 where r: "r = (err, s1)" by (cases r)
      show ?thesis
      proof (cases "err = OK")
        case False with Nil Suc.prems(1) Ret r show ?thesis by simp
      next
        case True
        with Nil Suc.prems(1) Ret r have 1: "read_l fuel env t s1 = Some (Ret (OK, Some b, s'))" by simp
        from Ret r True have rp: "readPacket env s = Ret (OK, s1)" by simp
        from readPacket_run[OF rp] obtain u where
          "tracks u = tracks s" "processPayloads env (packetPayloads env s) u = Ret (OK, s1)" by blast
        with processPayloads_length[of env "packetPayloads env s" u OK s1]
        have "length (tracks s1) = length (tracks s)" by simp
        with Suc.prems(2) have 2: "t < length (tracks s1)" by simp
        from Suc.IH[OF 1 2] obtain qs where 3: "demuxed env s1 qs [(t, b)] s'" by blast
        from demuxed.demuxed_packet[OF demuxed.demuxed_none rp]
        have 4: "demuxed env s (packetPayloads env s) [] s1" by simp
        from demuxed_trans[OF 3 4] show ?thesis by auto
      qed
    qed
  qed
qed

subsection \<open>Reassembly of fragmented objects\<close>























end
